theory Spec2Isabelle
  imports Main
begin

section \<open>Strings and numbers of the host language\<close>

text \<open>
  The sources are TypeScript. A JavaScript string is a sequence of UTF-16 code units; the
  model uses \<^typ>\<open>string\<close>, reading a \<^typ>\<open>char\<close> with code \<open>n\<close> as the code unit
  U+00\<open>n\<close>. The model therefore covers titles, dates and times written in the
  Latin-1 range (code units up to U+00FF), where \<open>String.prototype.toLowerCase\<close> is a
  map on single code units.
\<close>

text \<open>
  The class \<open>\s\<close> of regular expressions and the characters removed by
  \<open>String.prototype.trim\<close> (ECMAScript WhiteSpace and LineTerminator) agree; in the
  Latin-1 range they are TAB, LF, VT, FF, CR, SPACE and NO-BREAK SPACE.
\<close>

definition is_space :: "char \<Rightarrow> bool" where
  "is_space c = (c \<in> set [CHR 0x09, CHR 0x0A, CHR 0x0B, CHR 0x0C, CHR 0x0D, CHR 0x20, CHR 0xA0])"

text \<open>The class \<open>\d\<close>, and the classes \<open>a-z\<close> and \<open>0-9\<close> of \<open>slugify\<close>.\<close>

definition is_digit :: "char \<Rightarrow> bool" where
  "is_digit c = (c \<in> set ''0123456789'')"

definition is_lower :: "char \<Rightarrow> bool" where
  "is_lower c = (c \<in> set ''abcdefghijklmnopqrstuvwxyz'')"

text \<open>
  \<open>toLowerCase\<close> in the Latin-1 range: A-Z (U+0041-U+005A) and the capital letters
  U+00C0-U+00DE except the multiplication sign U+00D7 move up by 32.
\<close>

definition toLowerCase_char :: "char \<Rightarrow> char" where
  "toLowerCase_char c =
     (let n = (of_char c :: nat)
      in if (65 \<le> n \<and> n \<le> 90) \<or> (192 \<le> n \<and> n \<le> 222 \<and> n \<noteq> 215)
         then char_of (n + 32) else c)"

definition toLowerCase :: "string \<Rightarrow> string" where
  "toLowerCase s = map toLowerCase_char s"

text \<open>
  \<open>toUpperCase\<close> on ASCII letters. The save hook applies it only to the third group of
  the time pattern, a two-letter string over a, A, m, M, p, P.
\<close>

definition toUpperCase_char :: "char \<Rightarrow> char" where
  "toUpperCase_char c =
     (let n = (of_char c :: nat)
      in if 97 \<le> n \<and> n \<le> 122 then char_of (n - 32) else c)"

definition toUpperCase :: "string \<Rightarrow> string" where
  "toUpperCase s = map toUpperCase_char s"

definition trim :: "string \<Rightarrow> string" where
  "trim s = rev (dropWhile is_space (rev (dropWhile is_space s)))"

text \<open>
  \<open>s.replace(/X+/g, r)\<close> for a character class \<open>X\<close>: every maximal run of characters
  of the class becomes the single character \<open>r\<close>.
\<close>

function replace_runs :: "(char \<Rightarrow> bool) \<Rightarrow> char \<Rightarrow> string \<Rightarrow> string" where
  "replace_runs P r [] = []"
| "replace_runs P r (c # cs) =
     (if P c then r # replace_runs P r (dropWhile P cs) else c # replace_runs P r cs)"
  by pat_completeness auto
termination
  by (relation "measure (\<lambda>(P, r, s). length s)")
     (auto simp: less_Suc_eq_le length_dropWhile_le)

text \<open>
  Decimal rendering of a number, as a template literal \<open>`${n}`\<close> or \<open>String(n)\<close>
  produces it for an integer below \<open>10^21\<close>, and \<open>Number(s)\<close> on a string of decimal
  digits.
\<close>

definition digit_char :: "nat \<Rightarrow> char" where
  "digit_char d = char_of (48 + d)"

definition digit_val :: "char \<Rightarrow> nat" where
  "digit_val c = of_char c - 48"

fun toString_nat :: "nat \<Rightarrow> string" where
  "toString_nat n =
     (if n < 10 then [digit_char n] else toString_nat (n div 10) @ [digit_char (n mod 10)])"

declare toString_nat.simps [simp del]

definition toString_int :: "int \<Rightarrow> string" where
  "toString_int i = (if i < 0 then CHR ''-'' # toString_nat (nat (- i)) else toString_nat (nat i))"

definition Number :: "string \<Rightarrow> nat" where
  "Number s = foldl (\<lambda>a c. 10 * a + digit_val c) 0 s"

text \<open>\<open>s.padStart(n, "0")\<close>: zeros in front up to the length \<open>n\<close>, nothing cut off.\<close>

definition padStart :: "nat \<Rightarrow> string \<Rightarrow> string" where
  "padStart n s = replicate (n - length s) (CHR ''0'') @ s"

lemma replicate_numeral_Cons: "replicate (numeral k) x = x # replicate (pred_numeral k) x"
  by (simp add: numeral_eq_Suc)

lemma digit_val_digit_char: "d < 10 \<Longrightarrow> digit_val (digit_char d) = d"
  by (simp add: digit_val_def digit_char_def take_bit_eq_mod)

lemma is_digit_digit_char: "d < 10 \<Longrightarrow> is_digit (digit_char d)"
proof -
  assume "d < 10"
  then have "d \<in> {0, 1, 2, 3, 4, 5, 6, 7, 8, 9}" by auto
  then show ?thesis
    by (auto simp: is_digit_def digit_char_def char_of_eq_iff)
qed

lemma Number_snoc: "Number (s @ [c]) = 10 * Number s + digit_val c"
  by (simp add: Number_def)

lemma Number_toString_nat: "Number (toString_nat n) = n"
proof (induction n rule: toString_nat.induct)
  case (1 n)
  show ?case
  proof (cases "n < 10")
    case True
    then show ?thesis
      by (simp add: toString_nat.simps [of n] Number_def digit_val_digit_char)
  next
    case False
    with 1 show ?thesis
      by (simp add: toString_nat.simps [of n] Number_snoc digit_val_digit_char)
  qed
qed

lemma inj_toString_nat: "inj toString_nat"
  by (rule inj_on_inverseI [where g = Number]) (rule Number_toString_nat)

lemma toString_nat_digits: "c \<in> set (toString_nat n) \<Longrightarrow> is_digit c"
proof (induction n arbitrary: c rule: toString_nat.induct)
  case (1 n)
  show ?case
  proof (cases "n < 10")
    case True
    with 1(2) show ?thesis
      by (simp add: toString_nat.simps [of n] is_digit_digit_char)
  next
    case False
    with 1 show ?thesis
      by (auto simp: toString_nat.simps [of n] is_digit_digit_char)
  qed
qed

lemma toString_nat_nonempty: "toString_nat n \<noteq> []"
  by (subst toString_nat.simps) simp

section \<open>The Event model (database/event.model.ts)\<close>

subsection \<open>slugify\<close>

text \<open>
  \<open>value.toString().trim().toLowerCase().replace(/[^a-z0-9\-\s]/g, "")
  .replace(/\s+/g, "-").replace(/\-+/g, "-")\<close>
\<close>

definition keeps :: "char \<Rightarrow> bool" where
  "keeps c = (is_lower c \<or> is_digit c \<or> c = CHR ''-'' \<or> is_space c)"

definition slugify :: "string \<Rightarrow> string" where
  "slugify v =
     replace_runs (\<lambda>c. c = CHR ''-'') (CHR ''-'')
       (replace_runs is_space (CHR ''-'')
         (filter keeps (toLowerCase (trim v))))"

subsection \<open>Documents and the collection\<close>

text \<open>
  An Event document: the fields of \<open>IEvent\<close>, the identifier \<open>_id\<close> that Mongoose gives
  every document, and the paths that Mongoose's change tracking reports as modified
  (\<open>doc.isModified(path)\<close>). The timestamps play no part in the hook and are left out.
\<close>

type_synonym objectId = string

datatype path = Title | Date | Time

record event_doc =
  doc_id :: objectId
  title :: string
  slug :: string
  description :: string
  overview :: string
  image' :: string
  venue :: string
  location :: string
  date :: string
  time :: string
  mode :: string
  audience :: string
  agenda :: "string list"
  organizer :: string
  tags :: "string list"
  modifiedPaths :: "path set"

definition isModified :: "event_doc \<Rightarrow> path \<Rightarrow> bool" where
  "isModified doc p = (p \<in> modifiedPaths doc)"

text \<open>
  The Event collection is the list of the stored documents.
  \<open>Model.countDocuments({ slug: candidate, _id: { $ne: doc._id } })\<close> counts the stored
  documents with that slug and another identifier.
\<close>

definition countDocuments :: "event_doc list \<Rightarrow> string \<Rightarrow> objectId \<Rightarrow> nat" where
  "countDocuments db candidate self =
     length (filter (\<lambda>e. slug e = candidate \<and> doc_id e \<noteq> self) db)"

subsection \<open>The uniqueness loop of the save hook\<close>

text \<open>The template literal \<open>`${base}-${i}`\<close>.\<close>

definition suffixed :: "string \<Rightarrow> nat \<Rightarrow> string" where
  "suffixed base i = base @ ''-'' @ toString_nat i"

lemma inj_suffixed: "inj (suffixed base)"
  using inj_toString_nat by (auto simp: inj_def suffixed_def)

lemma finite_conflicts: "finite {j. countDocuments db (suffixed base j) self \<noteq> 0}"
proof -
  have "{j. countDocuments db (suffixed base j) self \<noteq> 0}
          \<subseteq> suffixed base -` (slug ` set db)"
    by (auto simp: countDocuments_def filter_empty_conv intro!: rev_image_eqI)
  moreover have "finite (suffixed base -` (slug ` set db))"
    by (intro finite_vimageI inj_suffixed) simp
  ultimately show ?thesis by (rule finite_subset)
qed

text \<open>
  \<open>while (true) { conflict = await Model.countDocuments(...); if (!conflict) break;
  i += 1; candidate = `${base}-${i}`; }\<close> with the loop variables \<open>i\<close> and
  \<open>candidate\<close>. The loop ends because the collection is finite and the candidates
  \<open>base-1\<close>, \<open>base-2\<close>, ... are pairwise different: each turn uses up one stored slug.
\<close>

function unique_slug_loop ::
  "event_doc list \<Rightarrow> objectId \<Rightarrow> string \<Rightarrow> nat \<Rightarrow> string \<Rightarrow> string" where
  "unique_slug_loop db self base i candidate =
     (if countDocuments db candidate self = 0 then candidate
      else unique_slug_loop db self base (i + 1) (suffixed base (i + 1)))"
  by pat_completeness auto
termination
proof (relation "measure (\<lambda>(db, self, base, i, candidate).
          if countDocuments db candidate self = 0 then 0
          else 1 + card {j. i < j \<and> countDocuments db (suffixed base j) self \<noteq> 0})")
  show "wf (measure (\<lambda>(db, self, base, i, candidate).
          if countDocuments db candidate self = 0 then 0
          else 1 + card {j. i < j \<and> countDocuments db (suffixed base j) self \<noteq> 0}))"
    by simp
next
  fix db :: "event_doc list" and self :: objectId and base :: string
    and i :: nat and candidate :: string
  assume c: "countDocuments db candidate self \<noteq> 0"
  let ?A = "\<lambda>k. {j. k < j \<and> countDocuments db (suffixed base j) self \<noteq> 0}"
  have fin: "finite (?A i)"
    using finite_conflicts [of db base self] by (rule rev_finite_subset) auto
  have "card (?A (i + 1)) < card (?A i)"
    if "countDocuments db (suffixed base (i + 1)) self \<noteq> 0"
  proof (rule psubset_card_mono [OF fin])
    show "?A (i + 1) \<subset> ?A i" using that by auto
  qed
  with c show "((db, self, base, i + 1, suffixed base (i + 1)), (db, self, base, i, candidate))
      \<in> measure (\<lambda>(db, self, base, i, candidate).
          if countDocuments db candidate self = 0 then 0
          else 1 + card {j. i < j \<and> countDocuments db (suffixed base j) self \<noteq> 0})"
    by simp
qed

declare unique_slug_loop.simps [simp del]

datatype error = ValidationError | InvalidDate | InvalidTime | InvalidEventId | EventNotFound

subsection \<open>The time pattern\<close>

text \<open>
  \<open>t.match(/^(\d{1,2})(?:[:\.](\d{2}))?(?:\s*(AM|PM))?$/i)\<close>, one function for each of
  the three parts of the pattern; each returns what its group captured and the rest of
  the input. The pattern leaves the matcher no choice, so no backtracking is modelled:
  \<^item> when two digits stand in front, taking only one leaves a digit where the pattern
    goes on with \<open>:\<close>, \<open>.\<close>, white space, a letter or the end;
  \<^item> when \<open>[:\.]\d{2}\<close> matches, skipping it leaves \<open>:\<close> or \<open>.\<close> where the pattern
    goes on with white space, a letter or the end;
  \<^item> \<open>\s*\<close> takes all the white space, since \<open>AM|PM\<close> starts with a letter.
\<close>

fun match_hours :: "string \<Rightarrow> (string \<times> string) option" where
  "match_hours (a # b # r) =
     (if is_digit a \<and> is_digit b then Some ([a, b], r)
      else if is_digit a then Some ([a], b # r) else None)"
| "match_hours [a] = (if is_digit a then Some ([a], []) else None)"
| "match_hours [] = None"

fun match_minutes :: "string \<Rightarrow> string option \<times> string" where
  "match_minutes (c # a # b # r) =
     (if (c = CHR '':'' \<or> c = CHR ''.'') \<and> is_digit a \<and> is_digit b then (Some [a, b], r)
      else (None, c # a # b # r))"
| "match_minutes r = (None, r)"

text \<open>\<open>AM|PM\<close> under the flag \<open>i\<close>: either case of each letter.\<close>

definition is_meridiem :: "string \<Rightarrow> bool" where
  "is_meridiem s = (s \<in> set [''AM'', ''Am'', ''aM'', ''am'', ''PM'', ''Pm'', ''pM'', ''pm''])"

text \<open>
  \<open>(?:\s*(AM|PM))?$\<close>: \<open>None\<close> when the pattern fails here, \<open>Some None\<close> when the input
  ends here with no meridiem, \<open>Some (Some m)\<close> when the meridiem \<open>m\<close> ends it.
\<close>

definition match_meridiem :: "string \<Rightarrow> string option option" where
  "match_meridiem r =
     (if is_meridiem (dropWhile is_space r) then Some (Some (dropWhile is_space r))
      else if r = [] then Some None else None)"

text \<open>The groups \<open>m[1]\<close>, \<open>m[2]\<close>, \<open>m[3]\<close> of a match; \<open>None\<close> is JavaScript's \<open>null\<close>.\<close>

definition time_match :: "string \<Rightarrow> (string \<times> string option \<times> string option) option" where
  "time_match t =
     (case match_hours t of
        None \<Rightarrow> None
      | Some (m1, r1) \<Rightarrow>
          (case match_minutes r1 of
             (m2, r2) \<Rightarrow>
               (case match_meridiem r2 of
                  None \<Rightarrow> None
                | Some m3 \<Rightarrow> Some (m1, m2, m3))))"

subsection \<open>The built-in Date\<close>

text \<open>
  \<open>new Date(s)\<close> on a string is \<open>Date.parse(s)\<close>: a time value, in milliseconds since
  1970-01-01T00:00:00Z, or \<open>NaN\<close>. ECMAScript fixes the result for its own date-time
  format and leaves every other string to the implementation, so the parser is a
  parameter \<open>Date_parse\<close> of the hook, with \<open>None\<close> for \<open>NaN\<close>.

  \<open>Date.prototype.toISOString\<close> is fixed by ECMAScript (Time Values and Time Range, Day
  Number and Time within Day, Year Number, Month Number, Date Number); the definitions
  below follow these sections by name.
\<close>

definition msPerDay :: int where
  "msPerDay = 86400000"

definition Day :: "int \<Rightarrow> int" where
  "Day t = t div msPerDay"

definition TimeWithinDay :: "int \<Rightarrow> int" where
  "TimeWithinDay t = t mod msPerDay"

definition DaysInYear :: "int \<Rightarrow> int" where
  "DaysInYear y =
     (if y mod 4 \<noteq> 0 then 365 else if y mod 100 \<noteq> 0 then 366
      else if y mod 400 \<noteq> 0 then 365 else 366)"

definition DayFromYear :: "int \<Rightarrow> int" where
  "DayFromYear y =
     365 * (y - 1970) + (y - 1969) div 4 - (y - 1901) div 100 + (y - 1601) div 400"

definition TimeFromYear :: "int \<Rightarrow> int" where
  "TimeFromYear y = msPerDay * DayFromYear y"

text \<open>
  \<open>YearFromTime(t)\<close> is the largest integer \<open>y\<close> such that \<open>TimeFromYear(y) \<le> t\<close>. A
  year has 365 or 366 days, so that year lies between \<open>1970 + Day(t) div 366\<close> and
  \<open>1970 + Day(t) div 365\<close> (in this order from 1970 on, in the other order before);
  the search runs over this interval, one year wider on each side.
\<close>

definition YearFromTime :: "int \<Rightarrow> int" where
  "YearFromTime t =
     (let lo = 1970 + min (Day t div 365) (Day t div 366) - 1;
          hi = 1970 + max (Day t div 365) (Day t div 366) + 1
      in last (filter (\<lambda>y. TimeFromYear y \<le> t) [lo..hi]))"

definition InLeapYear :: "int \<Rightarrow> int" where
  "InLeapYear t = (if DaysInYear (YearFromTime t) = 366 then 1 else 0)"

definition DayWithinYear :: "int \<Rightarrow> int" where
  "DayWithinYear t = Day t - DayFromYear (YearFromTime t)"

definition MonthFromTime :: "int \<Rightarrow> int" where
  "MonthFromTime t =
     (let d = DayWithinYear t; l = InLeapYear t
      in if d < 31 then 0
         else if d < 59 + l then 1
         else if d < 90 + l then 2
         else if d < 120 + l then 3
         else if d < 151 + l then 4
         else if d < 181 + l then 5
         else if d < 212 + l then 6
         else if d < 243 + l then 7
         else if d < 273 + l then 8
         else if d < 304 + l then 9
         else if d < 334 + l then 10
         else 11)"

definition DateFromTime :: "int \<Rightarrow> int" where
  "DateFromTime t =
     (let d = DayWithinYear t; l = InLeapYear t; m = MonthFromTime t
      in if m = 0 then d + 1
         else if m = 1 then d - 30
         else if m = 2 then d - 58 - l
         else if m = 3 then d - 89 - l
         else if m = 4 then d - 119 - l
         else if m = 5 then d - 150 - l
         else if m = 6 then d - 180 - l
         else if m = 7 then d - 211 - l
         else if m = 8 then d - 242 - l
         else if m = 9 then d - 272 - l
         else if m = 10 then d - 303 - l
         else d - 333 - l)"

definition HourFromTime :: "int \<Rightarrow> int" where
  "HourFromTime t = (t div 3600000) mod 24"

definition MinFromTime :: "int \<Rightarrow> int" where
  "MinFromTime t = (t div 60000) mod 60"

definition SecFromTime :: "int \<Rightarrow> int" where
  "SecFromTime t = (t div 1000) mod 60"

definition msFromTime :: "int \<Rightarrow> int" where
  "msFromTime t = t mod 1000"

text \<open>
  The year of \<open>toISOString\<close>: four digits from 0 to 9999, otherwise the expanded form
  of a sign and six digits.
\<close>

definition iso_year :: "int \<Rightarrow> string" where
  "iso_year y =
     (if 0 \<le> y \<and> y \<le> 9999 then padStart 4 (toString_nat (nat y))
      else (if y < 0 then ''-'' else ''+'') @ padStart 6 (toString_nat (nat \<bar>y\<bar>)))"

definition toISOString :: "int \<Rightarrow> string" where
  "toISOString t =
     iso_year (YearFromTime t) @ ''-'' @
     padStart 2 (toString_nat (nat (MonthFromTime t + 1))) @ ''-'' @
     padStart 2 (toString_nat (nat (DateFromTime t))) @ ''T'' @
     padStart 2 (toString_nat (nat (HourFromTime t))) @ '':'' @
     padStart 2 (toString_nat (nat (MinFromTime t))) @ '':'' @
     padStart 2 (toString_nat (nat (SecFromTime t))) @ ''.'' @
     padStart 3 (toString_nat (nat (msFromTime t))) @ ''Z''"

subsection \<open>Date normalization of the save hook\<close>

text \<open>
  The body of \<open>if (doc.isModified("date"))\<close>: \<open>parsed.toISOString().slice(0, 10)\<close>, or
  the error thrown when \<open>parsed.getTime()\<close> is \<open>NaN\<close>.
\<close>

definition normalize_date :: "(string \<Rightarrow> int option) \<Rightarrow> string \<Rightarrow> error + string" where
  "normalize_date Date_parse v =
     (case Date_parse v of
        None \<Rightarrow> Inl InvalidDate
      | Some parsed \<Rightarrow> Inr (take 10 (toISOString parsed)))"

subsection \<open>Time normalization of the save hook\<close>

text \<open>
  The two assignments under \<open>if (meridiem)\<close>, in their order:
  \<open>if (ampm === "PM" && hours < 12) hours += 12; if (ampm === "AM" && hours === 12) hours = 0;\<close>
\<close>

definition apply_meridiem :: "string option \<Rightarrow> nat \<Rightarrow> nat" where
  "apply_meridiem meridiem hours =
     (case meridiem of
        None \<Rightarrow> hours
      | Some mer \<Rightarrow>
          (let ampm = toUpperCase mer;
               hours1 = (if ampm = ''PM'' \<and> hours < 12 then hours + 12 else hours)
           in if ampm = ''AM'' \<and> hours1 = 12 then 0 else hours1))"

text \<open>
  The body of \<open>if (doc.isModified("time"))\<close>: the new value of \<open>doc.time\<close>, or the error
  thrown. Hours and minutes are natural numbers, so the tests \<open>hours < 0\<close> and
  \<open>minutes < 0\<close> of the source never hold and are not written.
\<close>

definition normalize_time :: "string \<Rightarrow> error + string" where
  "normalize_time v =
     (case time_match (trim v) of
        None \<Rightarrow> Inl InvalidTime
      | Some (m1, m2, m3) \<Rightarrow>
          (let hours = apply_meridiem m3 (Number m1);
               minutes = (case m2 of None \<Rightarrow> 0 | Some s \<Rightarrow> Number s)
           in if hours > 23 \<or> minutes > 59 then Inl InvalidTime
              else Inr (padStart 2 (toString_nat hours) @ '':'' @ padStart 2 (toString_nat minutes))))"

subsection \<open>The save hook\<close>

text \<open>
  \<open>EventSchema.pre("save", async function () { ... })\<close> in three steps, as the source
  has them. \<open>now\<close> is the value of \<open>Date.now()\<close>, \<open>db\<close> the Event collection. The hook
  assigns \<open>slug\<close>, \<open>date\<close> and \<open>time\<close> only; \<open>date\<close> and \<open>time\<close> are assigned when they
  already count as modified, so the answers of \<open>isModified\<close> for the three paths the hook
  asks about do not change while it runs.
\<close>

definition slug_step :: "int \<Rightarrow> event_doc list \<Rightarrow> event_doc \<Rightarrow> event_doc" where
  "slug_step now db doc =
     (if isModified doc Title then
        (let base = slugify (title doc);
             candidate = (if base = [] then toString_int now else base)
         in doc\<lparr>slug := unique_slug_loop db (doc_id doc) base 0 candidate\<rparr>)
      else doc)"

definition date_step :: "(string \<Rightarrow> int option) \<Rightarrow> event_doc \<Rightarrow> error + event_doc" where
  "date_step Date_parse doc =
     (if isModified doc Date then
        (case normalize_date Date_parse (date doc) of
           Inl e \<Rightarrow> Inl e
         | Inr d \<Rightarrow> Inr (doc\<lparr>date := d\<rparr>))
      else Inr doc)"

definition time_step :: "event_doc \<Rightarrow> error + event_doc" where
  "time_step doc =
     (if isModified doc Time then
        (case normalize_time (time doc) of
           Inl e \<Rightarrow> Inl e
         | Inr t \<Rightarrow> Inr (doc\<lparr>time := t\<rparr>))
      else Inr doc)"

definition pre_save ::
  "(string \<Rightarrow> int option) \<Rightarrow> int \<Rightarrow> event_doc list \<Rightarrow> event_doc \<Rightarrow> error + event_doc" where
  "pre_save Date_parse now db doc =
     (case date_step Date_parse (slug_step now db doc) of
        Inl e \<Rightarrow> Inl e
      | Inr doc1 \<Rightarrow> time_step doc1)"

subsection \<open>Schema validation\<close>

text \<open>
  The validators of \<open>EventSchema\<close>. On a string path Mongoose's \<open>required\<close> refuses a
  missing and an empty value; the model has no missing value, the empty string stands
  for both. \<open>nonEmptyString\<close> is the validator of the source:
  \<open>typeof v === "string" && v.trim().length > 0\<close>. Every scalar path but \<open>slug\<close> carries
  both, \<open>slug\<close> carries \<open>required\<close> only, and \<open>agenda\<close> and \<open>tags\<close> must be arrays that
  are not empty.
\<close>

definition required :: "string \<Rightarrow> bool" where
  "required v = (v \<noteq> [])"

definition nonEmptyString :: "string \<Rightarrow> bool" where
  "nonEmptyString v = (length (trim v) > 0)"

definition validate :: "event_doc \<Rightarrow> bool" where
  "validate doc =
     (required (title doc) \<and> nonEmptyString (title doc) \<and>
      required (slug doc) \<and>
      required (description doc) \<and> nonEmptyString (description doc) \<and>
      required (overview doc) \<and> nonEmptyString (overview doc) \<and>
      required (image' doc) \<and> nonEmptyString (image' doc) \<and>
      required (venue doc) \<and> nonEmptyString (venue doc) \<and>
      required (location doc) \<and> nonEmptyString (location doc) \<and>
      required (date doc) \<and> nonEmptyString (date doc) \<and>
      required (time doc) \<and> nonEmptyString (time doc) \<and>
      required (mode doc) \<and> nonEmptyString (mode doc) \<and>
      required (audience doc) \<and> nonEmptyString (audience doc) \<and>
      length (agenda doc) > 0 \<and>
      required (organizer doc) \<and> nonEmptyString (organizer doc) \<and>
      length (tags doc) > 0)"

subsection \<open>Saving and assigning, as Mongoose does them\<close>

text \<open>
  \<open>doc.save()\<close>. Mongoose validates the document first: validation is its own
  \<open>pre("save")\<close> hook and runs before every hook a schema registers with
  \<open>pre("save")\<close>. A document that fails validation is rejected with a
  \<open>ValidationError\<close>; the hook of the schema does not run and nothing is stored. After
  validation the hook runs; when it throws, nothing is stored and the caller gets the
  error; otherwise the document is written to the collection under its identifier and
  its modified paths are cleared. The unique index on \<open>slug\<close> is MongoDB's and is not
  part of this model.
\<close>

definition store :: "event_doc \<Rightarrow> event_doc list \<Rightarrow> event_doc list" where
  "store d db =
     (if \<exists>e \<in> set db. doc_id e = doc_id d
      then map (\<lambda>e. if doc_id e = doc_id d then d else e) db
      else db @ [d])"

definition save ::
  "(string \<Rightarrow> int option) \<Rightarrow> int \<Rightarrow> event_doc list \<Rightarrow> event_doc
     \<Rightarrow> (error + event_doc) \<times> event_doc list" where
  "save Date_parse now db doc =
     (if \<not> validate doc then (Inl ValidationError, db)
      else
        (case pre_save Date_parse now db doc of
           Inl e \<Rightarrow> (Inl e, db)
         | Inr d \<Rightarrow> (Inr (d\<lparr>modifiedPaths := {}\<rparr>), store (d\<lparr>modifiedPaths := {}\<rparr>) db)))"

text \<open>
  \<open>doc.title = v\<close> on a stored document: Mongoose marks the path as modified only when
  the new value differs from the current one.
\<close>

definition assign_title :: "string \<Rightarrow> event_doc \<Rightarrow> event_doc" where
  "assign_title v doc =
     (if v = title doc then doc
      else doc\<lparr>title := v, modifiedPaths := insert Title (modifiedPaths doc)\<rparr>)"

section \<open>The Booking model (database/booking.model.ts)\<close>

record booking_doc =
  eventId :: objectId
  email :: string

text \<open>\<open>Event.exists({ _id: doc.eventId })\<close>.\<close>

definition Event_exists :: "event_doc list \<Rightarrow> objectId \<Rightarrow> bool" where
  "Event_exists db i = (\<exists>e \<in> set db. doc_id e = i)"

text \<open>
  \<open>BookingSchema.pre("save", ...)\<close>. The hook changes nothing; it returns or throws.
  \<open>Types.ObjectId.isValid\<close> belongs to the driver and is the parameter \<open>isValid\<close>,
  applied to \<open>String(doc.eventId)\<close>.
\<close>

definition booking_pre_save ::
  "(string \<Rightarrow> bool) \<Rightarrow> event_doc list \<Rightarrow> booking_doc \<Rightarrow> error + unit" where
  "booking_pre_save isValid db doc =
     (if \<not> isValid (eventId doc) then Inl InvalidEventId
      else if \<not> Event_exists db (eventId doc) then Inl EventNotFound
      else Inr ())"

section \<open>The connection cache (lib/mongodb.ts)\<close>

text \<open>
  JavaScript runs one piece of code at a time: a call of \<open>connectToDatabase\<close> runs
  without interruption up to its \<open>return\<close> or its \<open>await\<close>, and a promise is settled in a
  step of its own. The model is a machine over these steps.

  A promise is named by its index in the list of all promises made by
  \<open>mongoose.connect(uri, options).then(...)\<close>; \<open>connects\<close> counts the calls of
  \<open>mongoose.connect\<close>. A caller that has reached \<open>await\<close> on a pending promise stands in
  \<open>awaiting\<close>; \<open>returned\<close> lists what each finished call gave its caller: the mongoose
  instance (\<open>Inr\<close>) or the error thrown (\<open>Inl\<close>).
\<close>

type_synonym handle = nat
type_synonym caller = nat

datatype promise_state = Pending | Fulfilled handle | Rejected string

record MongooseCache =
  conn :: "handle option"
  promise :: "nat option"

record world =
  cache :: MongooseCache
  promises :: "promise_state list"
  connects :: nat
  awaiting :: "(caller \<times> nat) list"
  returned :: "(caller \<times> (string + handle)) list"

text \<open>\<open>global._mongooseCache = { conn: null, promise: null }\<close>, before any call.\<close>

definition init :: world where
  "init = \<lparr>cache = \<lparr>conn = None, promise = None\<rparr>, promises = [], connects = 0,
            awaiting = [], returned = []\<rparr>"

datatype event = Call caller | Fulfil nat handle | Reject nat string

text \<open>
  \<open>const mongooseInstance = await p; return mongooseInstance;\<close> run by caller \<open>c\<close>:
  the caller waits while \<open>p\<close> is pending and goes on with the outcome of \<open>p\<close> once it is
  settled. An index outside the list names no promise of the machine (the cache never
  holds one); a caller awaiting it would wait for ever.
\<close>

definition await :: "caller \<Rightarrow> nat \<Rightarrow> world \<Rightarrow> world" where
  "await c p w =
     (if p < length (promises w) then
        (case promises w ! p of
           Pending \<Rightarrow> w\<lparr>awaiting := awaiting w @ [(c, p)]\<rparr>
         | Fulfilled h \<Rightarrow> w\<lparr>returned := returned w @ [(c, Inr h)]\<rparr>
         | Rejected e \<Rightarrow> w\<lparr>returned := returned w @ [(c, Inl e)]\<rparr>)
      else w\<lparr>awaiting := awaiting w @ [(c, p)]\<rparr>)"

text \<open>The body of \<open>connectToDatabase\<close>, for caller \<open>c\<close>.\<close>

definition connectToDatabase :: "caller \<Rightarrow> world \<Rightarrow> world" where
  "connectToDatabase c w =
     (case conn (cache w) of
        Some h \<Rightarrow> w\<lparr>returned := returned w @ [(c, Inr h)]\<rparr>
      | None \<Rightarrow>
          (case promise (cache w) of
             Some p \<Rightarrow> await c p w
           | None \<Rightarrow>
               (let p = length (promises w)
                in await c p
                     (w\<lparr>cache := (cache w)\<lparr>promise := Some p\<rparr>,
                        promises := promises w @ [Pending],
                        connects := connects w + 1\<rparr>))))"

text \<open>
  Settling promise \<open>p\<close>. On success the callback of \<open>then\<close> runs
  (\<open>cache.conn = mongooseInstance\<close>) and every caller awaiting \<open>p\<close> goes on with the
  instance; on failure the callback does not run and every caller awaiting \<open>p\<close> throws.
  A promise settles once.
\<close>

definition resume :: "nat \<Rightarrow> (string + handle) \<Rightarrow> world \<Rightarrow> world" where
  "resume p r w =
     w\<lparr>awaiting := filter (\<lambda>(c, q). q \<noteq> p) (awaiting w),
       returned := returned w @ map (\<lambda>(c, q). (c, r)) (filter (\<lambda>(c, q). q = p) (awaiting w))\<rparr>"

fun step :: "world \<Rightarrow> event \<Rightarrow> world" where
  "step w (Call c) = connectToDatabase c w"
| "step w (Fulfil p h) =
     (if p < length (promises w) \<and> promises w ! p = Pending
      then resume p (Inr h)
             (w\<lparr>promises := (promises w)[p := Fulfilled h],
                cache := (cache w)\<lparr>conn := Some h\<rparr>\<rparr>)
      else w)"
| "step w (Reject p e) =
     (if p < length (promises w) \<and> promises w ! p = Pending
      then resume p (Inl e) (w\<lparr>promises := (promises w)[p := Rejected e]\<rparr>)
      else w)"

definition run :: "world \<Rightarrow> event list \<Rightarrow> world" where
  "run w evs = foldl step w evs"

definition in_flight :: "world \<Rightarrow> nat" where
  "in_flight w = length (filter (\<lambda>s. s = Pending) (promises w))"

section \<open>Example documents\<close>

text \<open>A stored Event with the given identifier, title and slug, nothing modified.\<close>

definition example_event :: "objectId \<Rightarrow> string \<Rightarrow> string \<Rightarrow> event_doc" where
  "example_event i t s =
     \<lparr>doc_id = i, title = t, slug = s, description = ''A meetup'', overview = ''Talks'',
      image' = ''/images/event.png'', venue = ''Hall 1'', location = ''Berlin'',
      date = ''2025-03-01'', time = ''18:30'', mode = ''offline'', audience = ''developers'',
      agenda = [''Doors'', ''Talks''], organizer = ''The team'', tags = [''dev''],
      modifiedPaths = {}\<rparr>"

text \<open>
  A new Event with the same fields, not yet saved: on a new document every path that was
  set counts as modified. The third argument is the slug the caller supplies, empty when
  the caller supplies none.
\<close>

definition new_event :: "objectId \<Rightarrow> string \<Rightarrow> string \<Rightarrow> event_doc" where
  "new_event i t s = (example_event i t s)\<lparr>modifiedPaths := {Title, Date, Time}\<rparr>"

section \<open>Booking: the referenced Event must exist\<close>

text \<open>
  Claim C5. On every Booking save: when the stored event reference is not a valid
  identifier, the hook fails with the error for an invalid identifier; otherwise, when no
  Event of the collection has that identifier, it fails with the error for a missing
  event; and when such an Event exists, the hook lets the save go on.
\<close>

theorem booking_pre_save_checks_reference:
  "(\<not> isValid (eventId doc) \<longrightarrow> booking_pre_save isValid db doc = Inl InvalidEventId) \<and>
   (isValid (eventId doc) \<and> eventId doc \<notin> doc_id ` set db \<longrightarrow>
      booking_pre_save isValid db doc = Inl EventNotFound) \<and>
   (isValid (eventId doc) \<and> eventId doc \<in> doc_id ` set db \<longrightarrow>
      booking_pre_save isValid db doc = Inr ())"
  by (auto simp: booking_pre_save_def Event_exists_def intro: rev_image_eqI)

theorem booking_pre_save_checks_reference_witness:
  "booking_pre_save (\<lambda>s. length s = 24) [example_event ''65f1a0b2c3d4e5f607182930'' ''Launch'' ''launch'']
     \<lparr>eventId = ''not-an-id'', email = ''a@b.co''\<rparr> = Inl InvalidEventId \<and>
   booking_pre_save (\<lambda>s. length s = 24) [example_event ''65f1a0b2c3d4e5f607182930'' ''Launch'' ''launch'']
     \<lparr>eventId = ''000000000000000000000000'', email = ''a@b.co''\<rparr> = Inl EventNotFound \<and>
   booking_pre_save (\<lambda>s. length s = 24) [example_event ''65f1a0b2c3d4e5f607182930'' ''Launch'' ''launch'']
     \<lparr>eventId = ''65f1a0b2c3d4e5f607182930'', email = ''a@b.co''\<rparr> = Inr ()"
  using
    booking_pre_save_checks_reference [of "\<lambda>s. length s = 24"
      "\<lparr>eventId = ''not-an-id'', email = ''a@b.co''\<rparr>"
      "[example_event ''65f1a0b2c3d4e5f607182930'' ''Launch'' ''launch'']"]
    booking_pre_save_checks_reference [of "\<lambda>s. length s = 24"
      "\<lparr>eventId = ''000000000000000000000000'', email = ''a@b.co''\<rparr>"
      "[example_event ''65f1a0b2c3d4e5f607182930'' ''Launch'' ''launch'']"]
    booking_pre_save_checks_reference [of "\<lambda>s. length s = 24"
      "\<lparr>eventId = ''65f1a0b2c3d4e5f607182930'', email = ''a@b.co''\<rparr>"
      "[example_event ''65f1a0b2c3d4e5f607182930'' ''Launch'' ''launch'']"]
  by (simp add: example_event_def)

section \<open>The connection cache as a machine\<close>

text \<open>
  What every reachable state satisfies: each call of \<open>mongoose.connect\<close> made one
  promise, there is at most one, and there is none while \<open>cache.promise\<close> is \<open>null\<close>.
\<close>

definition cache_inv :: "world \<Rightarrow> bool" where
  "cache_inv w =
     (connects w = length (promises w) \<and> length (promises w) \<le> 1 \<and>
      (promise (cache w) = None \<longrightarrow> promises w = []))"

lemma cache_inv_init: "cache_inv init"
  by (simp add: cache_inv_def init_def)

lemma cache_inv_await: "cache_inv w \<Longrightarrow> cache_inv (await c p w)"
  by (simp add: cache_inv_def await_def split: promise_state.splits)

lemma cache_inv_resume: "cache_inv w \<Longrightarrow> cache_inv (resume p r w)"
  by (simp add: cache_inv_def resume_def)

lemma cache_inv_step: "cache_inv w \<Longrightarrow> cache_inv (step w ev)"
proof (cases ev)
  case (Call c)
  assume "cache_inv w"
  then show ?thesis
    unfolding Call step.simps connectToDatabase_def
    by (auto simp: Let_def split: option.splits intro!: cache_inv_await)
       (auto simp: cache_inv_def)
next
  case (Fulfil p h)
  assume "cache_inv w"
  then show ?thesis
    unfolding Fulfil step.simps
    by (auto intro!: cache_inv_resume) (auto simp: cache_inv_def)
next
  case (Reject p e)
  assume "cache_inv w"
  then show ?thesis
    unfolding Reject step.simps
    by (auto intro!: cache_inv_resume) (auto simp: cache_inv_def)
qed

lemma cache_inv_run: "cache_inv w \<Longrightarrow> cache_inv (run w evs)"
  unfolding run_def by (induction evs arbitrary: w) (auto intro: cache_inv_step)

lemma cache_inv_bounds: "cache_inv w \<Longrightarrow> in_flight w \<le> 1 \<and> connects w \<le> 1"
proof -
  assume i: "cache_inv w"
  have "in_flight w \<le> length (promises w)"
    by (simp add: in_flight_def)
  moreover from i have "length (promises w) \<le> 1" "connects w = length (promises w)"
    by (auto simp: cache_inv_def)
  ultimately show ?thesis by simp
qed

lemma call_connected:
  "conn (cache w) = Some h \<Longrightarrow> step w (Call c) = w\<lparr>returned := returned w @ [(c, Inr h)]\<rparr>"
  by (simp add: connectToDatabase_def)

lemma call_in_flight:
  "conn (cache w) = None \<Longrightarrow> promise (cache w) = Some p \<Longrightarrow> p < length (promises w) \<Longrightarrow>
   promises w ! p = Pending \<Longrightarrow> step w (Call c) = w\<lparr>awaiting := awaiting w @ [(c, p)]\<rparr>"
  by (simp add: connectToDatabase_def await_def)

lemma two_calls:
  "run init [Call a, Call b] =
     \<lparr>cache = \<lparr>conn = None, promise = Some 0\<rparr>, promises = [Pending], connects = 1,
      awaiting = [(a, 0), (b, 0)], returned = []\<rparr>"
  by (simp add: run_def init_def connectToDatabase_def await_def)

lemma two_calls_fulfilled:
  "run init [Call a, Call b, Fulfil 0 h] =
     \<lparr>cache = \<lparr>conn = Some h, promise = Some 0\<rparr>, promises = [Fulfilled h], connects = 1,
      awaiting = [], returned = [(a, Inr h), (b, Inr h)]\<rparr>"
  by (simp add: run_def init_def connectToDatabase_def await_def resume_def)

text \<open>
  Claim C6. In the machine of the connection cache: a call made when a connection is
  cached returns the cached instance and changes nothing else, so it starts no attempt;
  a call made while an attempt is in flight starts no attempt either and waits for the
  same pending promise; two calls made before any connection exists make exactly one
  call of \<open>mongoose.connect\<close>, both wait for its promise, and both get the same instance
  when it is fulfilled; and no run of the machine ever holds two attempts in flight
  (nor ever connects twice).
\<close>

theorem connection_cache_shares_one_attempt:
  "(conn (cache w) = Some h \<longrightarrow>
      step w (Call c) = w\<lparr>returned := returned w @ [(c, Inr h)]\<rparr>) \<and>
   (conn (cache w) = None \<and> promise (cache w) = Some p \<and> p < length (promises w) \<and>
    promises w ! p = Pending \<longrightarrow>
      step w (Call c) = w\<lparr>awaiting := awaiting w @ [(c, p)]\<rparr>) \<and>
   connects (run init [Call a, Call b]) = 1 \<and>
   awaiting (run init [Call a, Call b]) = [(a, 0), (b, 0)] \<and>
   connects (run init [Call a, Call b, Fulfil 0 h']) = 1 \<and>
   returned (run init [Call a, Call b, Fulfil 0 h']) = [(a, Inr h'), (b, Inr h')] \<and>
   in_flight (run init evs) \<le> 1 \<and> connects (run init evs) \<le> 1"
proof -
  have "in_flight (run init evs) \<le> 1 \<and> connects (run init evs) \<le> 1"
    by (intro cache_inv_bounds cache_inv_run cache_inv_init)
  then show ?thesis
    by (simp add: call_connected call_in_flight two_calls two_calls_fulfilled del: step.simps)
qed

theorem connection_cache_shares_one_attempt_witness:
  "step (run init [Call 1, Fulfil 0 7]) (Call 2) =
     (run init [Call 1, Fulfil 0 7])\<lparr>returned := [(1, Inr 7), (2, Inr 7)]\<rparr> \<and>
   step (run init [Call 1]) (Call 2) = (run init [Call 1])\<lparr>awaiting := [(1, 0), (2, 0)]\<rparr> \<and>
   in_flight (run init [Call 1, Call 2, Reject 0 ''down'', Call 3]) \<le> 1"
proof -
  have w1: "run init [Call 1, Fulfil 0 7] =
      \<lparr>cache = \<lparr>conn = Some 7, promise = Some 0\<rparr>, promises = [Fulfilled 7], connects = 1,
       awaiting = [], returned = [(1, Inr 7)]\<rparr>"
    by (simp add: run_def init_def connectToDatabase_def await_def resume_def)
  have w2: "run init [Call 1] =
      \<lparr>cache = \<lparr>conn = None, promise = Some 0\<rparr>, promises = [Pending], connects = 1,
       awaiting = [(1, 0)], returned = []\<rparr>"
    by (simp add: run_def init_def connectToDatabase_def await_def)
  show ?thesis
    using
      connection_cache_shares_one_attempt
        [where w = "run init [Call 1, Fulfil 0 7]" and h = 7 and c = 2 and p = 0
           and evs = "[Call 1, Call 2, Reject 0 ''down'', Call 3]"]
      connection_cache_shares_one_attempt
        [where w = "run init [Call 1]" and h = 7 and c = 2 and p = 0 and evs = "[]"]
    unfolding w1 w2 by simp
qed

subsection \<open>A failed attempt\<close>

lemma failed_step:
  "cache w = \<lparr>conn = None, promise = Some 0\<rparr> \<Longrightarrow> promises w = [Rejected e] \<Longrightarrow>
   cache (step w ev) = \<lparr>conn = None, promise = Some 0\<rparr> \<and> promises (step w ev) = [Rejected e] \<and>
   connects (step w ev) = connects w"
  by (cases ev) (auto simp: connectToDatabase_def await_def resume_def)

lemma failed_run:
  "cache w = \<lparr>conn = None, promise = Some 0\<rparr> \<Longrightarrow> promises w = [Rejected e] \<Longrightarrow>
   cache (run w evs) = \<lparr>conn = None, promise = Some 0\<rparr> \<and> promises (run w evs) = [Rejected e] \<and>
   connects (run w evs) = connects w"
proof (induction evs arbitrary: w)
  case Nil
  then show ?case by (simp add: run_def)
next
  case (Cons ev evs)
  from failed_step [OF Cons.prems, of ev] Cons.IH [of "step w ev"]
  show ?case by (simp add: run_def)
qed

lemma first_attempt_failed:
  "run init [Call a, Reject 0 e] =
     \<lparr>cache = \<lparr>conn = None, promise = Some 0\<rparr>, promises = [Rejected e], connects = 1,
      awaiting = [], returned = [(a, Inl e)]\<rparr>"
  by (simp add: run_def init_def connectToDatabase_def await_def resume_def)

text \<open>
  Claim C7. The claim says that a failed attempt clears the in-flight marker of the
  cache, so that the next call connects again. The code does not: when the first attempt
  is rejected, the caller awaiting it gets the error, but \<open>cache.promise\<close> keeps the
  rejected promise whatever happens afterwards, \<open>mongoose.connect\<close> is never called a
  second time, and a later call awaits the rejected promise and throws the same error.
\<close>

theorem failed_attempt_is_never_retried:
  "promise (cache (run init (Call a # Reject 0 e # evs))) = Some 0 \<and>
   conn (cache (run init (Call a # Reject 0 e # evs))) = None \<and>
   connects (run init (Call a # Reject 0 e # evs)) = 1 \<and>
   returned (run init [Call a, Reject 0 e, Call b]) = [(a, Inl e), (b, Inl e)]"
proof -
  have split: "run init (Call a # Reject 0 e # evs) = run (run init [Call a, Reject 0 e]) evs"
    by (simp add: run_def)
  have r: "returned (run init [Call a, Reject 0 e, Call b]) = [(a, Inl e), (b, Inl e)]"
    by (simp add: run_def init_def connectToDatabase_def await_def resume_def)
  from failed_run [of "run init [Call a, Reject 0 e]" e evs] r
  show ?thesis
    unfolding split by (simp add: first_attempt_failed)
qed

section \<open>Properties of the Event save hook\<close>

subsection \<open>What slugify returns\<close>

text \<open>Two hyphens next to each other somewhere in a string.\<close>

fun consecutive_hyphens :: "string \<Rightarrow> bool" where
  "consecutive_hyphens (a # b # cs) =
     ((a = CHR ''-'' \<and> b = CHR ''-'') \<or> consecutive_hyphens (b # cs))"
| "consecutive_hyphens cs = False"

text \<open>The characters of a URL-safe slug: lowercase letters, digits and the hyphen.\<close>

definition is_slug_char :: "char \<Rightarrow> bool" where
  "is_slug_char c = (is_lower c \<or> is_digit c \<or> c = CHR ''-'')"

lemma set_replace_runs: "set (replace_runs P r s) \<subseteq> insert r {c \<in> set s. \<not> P c}"
proof (induction P r s rule: replace_runs.induct)
  case (1 P r)
  show ?case by simp
next
  case (2 P r c cs)
  show ?case
  proof (cases "P c")
    case True
    with 2 show ?thesis by (auto dest: set_dropWhileD)
  next
    case False
    with 2 show ?thesis by auto
  qed
qed

lemma replace_runs_Nil_iff: "replace_runs P r s = [] \<longleftrightarrow> s = []"
  by (cases s) auto

lemma replace_runs_not_hd:
  "s = [] \<or> \<not> P (hd s) \<Longrightarrow> replace_runs P r s = [] \<or> hd (replace_runs P r s) = hd s"
  by (cases s) auto

lemma dropWhile_hd: "dropWhile P s = [] \<or> \<not> P (hd (dropWhile P s))"
  by (metis hd_dropWhile)

lemma consecutive_hyphens_Cons:
  "consecutive_hyphens (a # s) \<longleftrightarrow> (a = CHR ''-'' \<and> s \<noteq> [] \<and> hd s = CHR ''-'') \<or> consecutive_hyphens s"
  by (cases s) auto

lemma no_consecutive_hyphens_replace_runs_gen:
  "P = (\<lambda>c. c = CHR ''-'') \<Longrightarrow> r = CHR ''-'' \<Longrightarrow> \<not> consecutive_hyphens (replace_runs P r s)"
proof (induction P r s rule: replace_runs.induct)
  case (1 P r)
  show ?case by simp
next
  case (2 P r c cs)
  show ?case
  proof (cases "P c")
    case True
    let ?d = "dropWhile P cs"
    have eq: "replace_runs P r (c # cs) = r # replace_runs P r ?d"
      using True by simp
    have ih: "\<not> consecutive_hyphens (replace_runs P r ?d)"
      using 2(1) [OF True 2(3) 2(4)] .
    have "?d = [] \<or> \<not> P (hd ?d)" by (rule dropWhile_hd)
    then have "replace_runs P r ?d = [] \<or> hd (replace_runs P r ?d) = hd ?d"
      by (rule replace_runs_not_hd)
    moreover have "?d = [] \<or> hd ?d \<noteq> CHR ''-''"
      using dropWhile_hd [of P cs] 2(3) by blast
    moreover have "?d = [] \<longrightarrow> replace_runs P r ?d = []"
      by (rule impI) (simp only: replace_runs.simps(1))
    ultimately have "replace_runs P r ?d = [] \<or> hd (replace_runs P r ?d) \<noteq> CHR ''-''"
      by metis
    with ih show ?thesis
      unfolding eq consecutive_hyphens_Cons by blast
  next
    case False
    have eq: "replace_runs P r (c # cs) = c # replace_runs P r cs"
      using False by simp
    have ih: "\<not> consecutive_hyphens (replace_runs P r cs)"
      using 2(2) [OF False 2(3) 2(4)] .
    from False 2(3) have "c \<noteq> CHR ''-''" by simp
    with ih show ?thesis
      unfolding eq consecutive_hyphens_Cons by blast
  qed
qed

lemma no_consecutive_hyphens_replace_runs:
  "\<not> consecutive_hyphens (replace_runs (\<lambda>c. c = CHR ''-'') (CHR ''-'') s)"
  by (rule no_consecutive_hyphens_replace_runs_gen) (rule refl)+

lemma slugify_chars: "c \<in> set (slugify v) \<Longrightarrow> is_slug_char c"
proof -
  let ?a = "filter keeps (toLowerCase (trim v))"
  let ?b = "replace_runs is_space (CHR ''-'') ?a"
  assume "c \<in> set (slugify v)"
  then have "c \<in> insert (CHR ''-'') {c \<in> set ?b. c \<noteq> CHR ''-''}"
    unfolding slugify_def
    by (rule subsetD [OF set_replace_runs [of "\<lambda>c. c = CHR ''-''" "CHR ''-''" ?b]])
  then have "c = CHR ''-'' \<or> c \<in> set ?b" by auto
  moreover have "c \<in> insert (CHR ''-'') {c \<in> set ?a. \<not> is_space c}" if "c \<in> set ?b"
    using that by (rule subsetD [OF set_replace_runs [of is_space "CHR ''-''" ?a]])
  ultimately have "c = CHR ''-'' \<or> (keeps c \<and> \<not> is_space c)" by auto
  then show ?thesis
    by (auto simp: is_slug_char_def keeps_def)
qed

lemma slugify_no_consecutive_hyphens: "\<not> consecutive_hyphens (slugify v)"
  unfolding slugify_def by (rule no_consecutive_hyphens_replace_runs)

lemma slugify_Nil_iff: "slugify v = [] \<longleftrightarrow> (\<forall>c \<in> set (toLowerCase (trim v)). \<not> keeps c)"
  by (simp add: slugify_def replace_runs_Nil_iff filter_empty_conv)

subsection \<open>What the uniqueness loop returns\<close>

text \<open>
  The candidate tried in turn \<open>k\<close> of a loop entered with counter \<open>i\<close> and candidate
  \<open>cand\<close>: \<open>cand\<close> itself in the first turn, \<open>base-k\<close> afterwards.
\<close>

definition loop_candidate :: "string \<Rightarrow> nat \<Rightarrow> string \<Rightarrow> nat \<Rightarrow> string" where
  "loop_candidate base i cand k = (if k = i then cand else suffixed base k)"

lemma loop_candidate_later: "i < k \<Longrightarrow> loop_candidate base i cand k = suffixed base k"
  by (simp add: loop_candidate_def)

lemma loop_candidate_next: "loop_candidate base (i + 1) (suffixed base (i + 1)) k = suffixed base k"
  by (simp add: loop_candidate_def)

lemma unique_slug_loop_result:
  "\<exists>k\<ge>i. unique_slug_loop db self base i cand = loop_candidate base i cand k \<and>
     countDocuments db (loop_candidate base i cand k) self = 0 \<and>
     (\<forall>j. i \<le> j \<and> j < k \<longrightarrow> countDocuments db (loop_candidate base i cand j) self \<noteq> 0)"
proof (induction db self base i cand rule: unique_slug_loop.induct)
  case (1 db self base i candidate)
  show ?case
  proof (cases "countDocuments db candidate self = 0")
    case True
    then have "unique_slug_loop db self base i candidate = candidate"
      by (simp add: unique_slug_loop.simps)
    with True show ?thesis
      by (intro exI [of _ i]) (simp add: loop_candidate_def)
  next
    case False
    then have u: "unique_slug_loop db self base i candidate
        = unique_slug_loop db self base (i + 1) (suffixed base (i + 1))"
      by (simp add: unique_slug_loop.simps [of db self base i candidate])
    from 1 [OF False] obtain k where k1: "i + 1 \<le> k"
      and k2: "unique_slug_loop db self base (i + 1) (suffixed base (i + 1)) = suffixed base k"
      and k3: "countDocuments db (suffixed base k) self = 0"
      and k4: "\<forall>j. i + 1 \<le> j \<and> j < k \<longrightarrow> countDocuments db (suffixed base j) self \<noteq> 0"
      unfolding loop_candidate_next by blast
    have "countDocuments db (loop_candidate base i candidate j) self \<noteq> 0"
      if j: "i \<le> j \<and> j < k" for j
    proof (cases "j = i")
      case True
      with False show ?thesis by (simp add: loop_candidate_def)
    next
      case False
      with j have "i + 1 \<le> j \<and> j < k" "i < j" by auto
      with k4 show ?thesis by (simp add: loop_candidate_later)
    qed
    moreover from k1 have "loop_candidate base i candidate k = suffixed base k"
      by (simp add: loop_candidate_later)
    ultimately show ?thesis
      using k1 k2 k3 u by (intro exI [of _ k]) simp
  qed
qed

subsection \<open>What the hook changes\<close>

lemma pre_save_Inr:
  assumes "pre_save Date_parse now db doc = Inr d"
  shows "d = (slug_step now db doc)\<lparr>date := date d, time := time d\<rparr>"
    and "\<not> isModified doc Date \<longrightarrow> date d = date doc"
    and "\<not> isModified doc Time \<longrightarrow> time d = time doc"
  using assms
  by (auto simp: pre_save_def date_step_def time_step_def slug_step_def isModified_def Let_def
      split: sum.splits if_splits)

lemma slug_step_frame:
  "slug_step now db doc = doc\<lparr>slug := slug (slug_step now db doc)\<rparr>"
  by (simp add: slug_step_def Let_def)

lemma slug_step_unmodified: "\<not> isModified doc Title \<Longrightarrow> slug_step now db doc = doc"
  by (simp add: slug_step_def)

lemma slug_step_modified:
  "isModified doc Title \<Longrightarrow>
   slug (slug_step now db doc) =
     unique_slug_loop db (doc_id doc) (slugify (title doc)) 0
       (if slugify (title doc) = [] then toString_int now else slugify (title doc))"
  by (simp add: slug_step_def Let_def)

lemma pre_save_frame:
  assumes "pre_save Date_parse now db doc = Inr d"
  shows "d = doc\<lparr>slug := slug d, date := date d, time := time d\<rparr>"
    and "slug d = slug (slug_step now db doc)"
proof -
  from pre_save_Inr(1) [OF assms] have d: "d = (slug_step now db doc)\<lparr>date := date d, time := time d\<rparr>" .
  then have "slug d = slug ((slug_step now db doc)\<lparr>date := date d, time := time d\<rparr>)" by simp
  then show s: "slug d = slug (slug_step now db doc)" by simp
  from d slug_step_frame [of now db doc]
  have "d = (doc\<lparr>slug := slug (slug_step now db doc)\<rparr>)\<lparr>date := date d, time := time d\<rparr>"
    by simp
  with s show "d = doc\<lparr>slug := slug d, date := date d, time := time d\<rparr>" by simp
qed

lemma assign_same_title: "assign_title (title doc) doc = doc"
  by (simp add: assign_title_def)

text \<open>
  Claim C8. Saving an Event whose title is not modified leaves its slug as it is, also
  when the title has been assigned its own value again (such an assignment does not mark
  the title as modified); the date and the time are normalized only when they are
  modified; and the hook changes no field but \<open>slug\<close>, \<open>date\<close> and \<open>time\<close>.
\<close>

theorem save_hook_touches_only_modified_fields:
  "assign_title (title doc) doc = doc \<and>
   (pre_save Date_parse now db doc = Inr d \<longrightarrow>
      (\<not> isModified doc Title \<longrightarrow> slug d = slug doc) \<and>
      (\<not> isModified doc Date \<longrightarrow> date d = date doc) \<and>
      (\<not> isModified doc Time \<longrightarrow> time d = time doc) \<and>
      d = doc\<lparr>slug := slug d, date := date d, time := time d\<rparr>)"
proof -
  have "(\<not> isModified doc Title \<longrightarrow> slug d = slug doc) \<and>
      (\<not> isModified doc Date \<longrightarrow> date d = date doc) \<and>
      (\<not> isModified doc Time \<longrightarrow> time d = time doc) \<and>
      d = doc\<lparr>slug := slug d, date := date d, time := time d\<rparr>"
    if p: "pre_save Date_parse now db doc = Inr d"
    using pre_save_Inr(2,3) [OF p] pre_save_frame [OF p] slug_step_unmodified [of doc now db]
    by auto
  then show ?thesis by (simp add: assign_same_title)
qed

text \<open>The definitions that evaluate the time normalization on a given string.\<close>

lemmas time_eval = normalize_time_def time_match_def match_meridiem_def is_meridiem_def
  apply_meridiem_def trim_def is_space_def is_digit_def Number_def digit_val_def
  toUpperCase_def toUpperCase_char_def padStart_def toString_nat.simps digit_char_def
  char_of_eq_iff

theorem save_hook_touches_only_modified_fields_witness:
  "pre_save (\<lambda>s. None) 1700000000000 []
     ((example_event ''65f1a0b2c3d4e5f607182930'' ''Launch'' ''launch'')
        \<lparr>time := ''9:30 AM'', modifiedPaths := {Time}\<rparr>)
   = Inr ((example_event ''65f1a0b2c3d4e5f607182930'' ''Launch'' ''launch'')
        \<lparr>time := ''09:30'', modifiedPaths := {Time}\<rparr>) \<and>
   slug ((example_event ''65f1a0b2c3d4e5f607182930'' ''Launch'' ''launch'')
        \<lparr>time := ''09:30'', modifiedPaths := {Time}\<rparr>) = ''launch''"
proof -
  let ?doc = "(example_event ''65f1a0b2c3d4e5f607182930'' ''Launch'' ''launch'')
        \<lparr>time := ''9:30 AM'', modifiedPaths := {Time}\<rparr>"
  let ?d = "(example_event ''65f1a0b2c3d4e5f607182930'' ''Launch'' ''launch'')
        \<lparr>time := ''09:30'', modifiedPaths := {Time}\<rparr>"
  have t: "normalize_time ''9:30 AM'' = Inr ''09:30''"
    by (simp add: time_eval)
  have p: "pre_save (\<lambda>s. None) 1700000000000 [] ?doc = Inr ?d"
    by (simp add: pre_save_def slug_step_def date_step_def time_step_def isModified_def
        example_event_def t)
  have m: "\<not> isModified ?doc Title"
    by (simp add: isModified_def example_event_def)
  from save_hook_touches_only_modified_fields
    [of ?doc "\<lambda>s. None" 1700000000000 "[]" ?d] p m
  have "slug ?d = slug ?doc" by blast
  with p show ?thesis by (simp add: example_event_def)
qed

subsection \<open>Slugs of saved Events\<close>

text \<open>
  The candidates of the loop for a non-empty base, by the value of the counter: the base
  itself at 0, then \<open>base-1\<close>, \<open>base-2\<close>, ...
\<close>

definition candidate_at :: "string \<Rightarrow> nat \<Rightarrow> string" where
  "candidate_at base n = (if n = 0 then base else suffixed base n)"

lemma loop_candidate_0: "loop_candidate base 0 base k = candidate_at base k"
  by (simp add: loop_candidate_def candidate_at_def)

lemma countDocuments_0_iff:
  "countDocuments db s self = 0 \<longleftrightarrow> (\<forall>e \<in> set db. slug e = s \<longrightarrow> doc_id e = self)"
  by (auto simp: countDocuments_def filter_empty_conv)

lemma countDocuments_unused: "s \<notin> slug ` set db \<Longrightarrow> countDocuments db s self = 0"
  unfolding countDocuments_0_iff by (metis imageI)

lemma store_mem: "d \<in> set (store d db)"
  by (auto simp: store_def)

lemma store_slugs: "e \<in> set (store d db) \<Longrightarrow> e = d \<or> e \<in> set db"
  by (auto simp: store_def split: if_splits)

lemma suffixed_neq_base: "suffixed base n \<noteq> base"
  by (simp add: suffixed_def)

lemma unique_slug_loop_free:
  "countDocuments db (unique_slug_loop db self base i cand) self = 0"
  using unique_slug_loop_result [of i db self base cand] by auto

lemma save_Inr:
  assumes "save Date_parse now db doc = (Inr d, db')"
  shows "\<exists>e. pre_save Date_parse now db doc = Inr e \<and> d = e\<lparr>modifiedPaths := {}\<rparr> \<and> db' = store d db"
    and "validate doc"
  using assms by (auto simp: save_def split: sum.splits if_splits)

lemma save_slug:
  assumes "save Date_parse now db doc = (Inr d, db')" "isModified doc Title"
  shows "slug d = unique_slug_loop db (doc_id doc) (slugify (title doc)) 0
       (if slugify (title doc) = [] then toString_int now else slugify (title doc))"
    and "doc_id d = doc_id doc" and "db' = store d db"
proof -
  from save_Inr(1) [OF assms(1)] obtain e where e: "pre_save Date_parse now db doc = Inr e"
    "d = e\<lparr>modifiedPaths := {}\<rparr>" "db' = store d db" by blast
  from pre_save_frame [OF e(1)] have f: "e = doc\<lparr>slug := slug e, date := date e, time := time e\<rparr>"
    "slug e = slug (slug_step now db doc)" by auto
  from e(2) have "slug d = slug e" by simp
  with f(2) slug_step_modified [OF assms(2)] show "slug d = unique_slug_loop db (doc_id doc) (slugify (title doc)) 0
       (if slugify (title doc) = [] then toString_int now else slugify (title doc))" by simp
  from f(1) have "doc_id e = doc_id (doc\<lparr>slug := slug e, date := date e, time := time e\<rparr>)" by simp
  with e(2) show "doc_id d = doc_id doc" by simp
  show "db' = store d db" by fact
qed

lemma two_saves_distinct:
  assumes s1: "save Date_parse now1 db doc1 = (Inr d1, db1)"
    and s2: "save Date_parse now2 db1 doc2 = (Inr d2, db2)"
    and m: "isModified doc1 Title" "isModified doc2 Title"
    and i: "doc_id doc2 \<noteq> doc_id doc1"
  shows "slug d1 \<noteq> slug d2"
proof
  assume eq: "slug d1 = slug d2"
  from save_slug [OF s1 m(1)] have a: "doc_id d1 = doc_id doc1" "db1 = store d1 db" by auto
  from save_slug(1) [OF s2 m(2)] unique_slug_loop_free
  have "countDocuments db1 (slug d2) (doc_id doc2) = 0" by simp
  then have "\<forall>e \<in> set db1. slug e = slug d2 \<longrightarrow> doc_id e = doc_id doc2"
    by (simp add: countDocuments_0_iff)
  moreover from a(2) have "d1 \<in> set db1" by (simp add: store_mem)
  ultimately have "doc_id d1 = doc_id doc2" using eq by blast
  with a(1) i show False by simp
qed

lemma two_saves_base_then_1:
  assumes s1: "save Date_parse now1 db doc1 = (Inr d1, db1)"
    and s2: "save Date_parse now2 db1 doc2 = (Inr d2, db2)"
    and m: "isModified doc1 Title" "isModified doc2 Title"
    and i: "doc_id doc2 \<noteq> doc_id doc1"
    and t: "title doc2 = title doc1"
    and b: "slugify (title doc1) \<noteq> []"
    and f: "slugify (title doc1) \<notin> slug ` set db" "suffixed (slugify (title doc1)) 1 \<notin> slug ` set db"
  shows "slug d1 = slugify (title doc1)" and "slug d2 = suffixed (slugify (title doc1)) 1"
proof -
  let ?b = "slugify (title doc1)"
  from f(1) have "countDocuments db ?b (doc_id doc1) = 0"
    by (rule countDocuments_unused)
  then have "unique_slug_loop db (doc_id doc1) ?b 0 ?b = ?b"
    by (simp add: unique_slug_loop.simps)
  with save_slug(1) [OF s1 m(1)] b show d1: "slug d1 = ?b" by simp
  from save_slug [OF s1 m(1)] have a: "doc_id d1 = doc_id doc1" "db1 = store d1 db" by auto
  then have mem: "d1 \<in> set db1" by (simp add: store_mem)
  with d1 a(1) i have c0: "countDocuments db1 ?b (doc_id doc2) \<noteq> 0"
    by (auto simp: countDocuments_0_iff)
  have "slug e \<noteq> suffixed ?b 1" if "e \<in> set db1" for e
  proof -
    from that a(2) store_slugs [of e d1 db] have "e = d1 \<or> e \<in> set db" by simp
    then show ?thesis
    proof
      assume "e = d1"
      with d1 suffixed_neq_base [of ?b 1] show ?thesis by simp
    next
      assume "e \<in> set db"
      with f(2) show ?thesis by (metis imageI)
    qed
  qed
  then have c1: "countDocuments db1 (suffixed ?b 1) (doc_id doc2) = 0"
    by (auto simp: countDocuments_0_iff)
  have "unique_slug_loop db1 (doc_id doc2) ?b 0 ?b
      = unique_slug_loop db1 (doc_id doc2) ?b (0 + 1) (suffixed ?b (0 + 1))"
    using c0 by (subst unique_slug_loop.simps) simp
  also have "\<dots> = suffixed ?b 1"
    using c1 by (subst unique_slug_loop.simps) simp
  finally show "slug d2 = suffixed ?b 1"
    using save_slug(1) [OF s2 m(2)] b t by simp
qed

lemma first_free_candidate:
  assumes "pre_save Date_parse now db doc = Inr d" "isModified doc Title" "slugify (title doc) \<noteq> []"
  shows "\<exists>n. slug d = candidate_at (slugify (title doc)) n \<and>
           countDocuments db (candidate_at (slugify (title doc)) n) (doc_id doc) = 0 \<and>
           (\<forall>k<n. countDocuments db (candidate_at (slugify (title doc)) k) (doc_id doc) \<noteq> 0)"
proof -
  let ?b = "slugify (title doc)"
  from pre_save_frame(2) [OF assms(1)] slug_step_modified [OF assms(2)] assms(3)
  have s: "slug d = unique_slug_loop db (doc_id doc) ?b 0 ?b" by simp
  from unique_slug_loop_result [of 0 db "doc_id doc" ?b ?b]
  obtain k where "unique_slug_loop db (doc_id doc) ?b 0 ?b = candidate_at ?b k"
    "countDocuments db (candidate_at ?b k) (doc_id doc) = 0"
    "\<forall>j. 0 \<le> j \<and> j < k \<longrightarrow> countDocuments db (candidate_at ?b j) (doc_id doc) \<noteq> 0"
    unfolding loop_candidate_0 by blast
  with s show ?thesis by (intro exI [of _ k]) simp
qed

text \<open>The definitions that evaluate \<open>slugify\<close> on a given title.\<close>

lemmas slug_eval = slugify_def trim_def toLowerCase_def toLowerCase_char_def keeps_def
  is_lower_def is_digit_def is_space_def char_of_eq_iff

text \<open>
  What holds of the hook, and of saves that succeed. For a title whose normalized base
  is not empty, the slug the hook adopts is the first candidate, in the order \<open>base\<close>,
  \<open>base-1\<close>, \<open>base-2\<close>, ..., that no other record of the collection uses; when two
  Events with the same title are saved one after the other and both saves succeed, they
  get different slugs, \<open>base\<close> and \<open>base-1\<close> when neither was in use before.
\<close>

lemma saves_that_succeed_get_distinct_slugs:
  "slugify (title doc1) \<noteq> [] \<longrightarrow>
     (isModified doc1 Title \<and> pre_save Date_parse now1 db doc1 = Inr d \<longrightarrow>
        (\<exists>n. slug d = candidate_at (slugify (title doc1)) n \<and>
           countDocuments db (candidate_at (slugify (title doc1)) n) (doc_id doc1) = 0 \<and>
           (\<forall>k<n. countDocuments db (candidate_at (slugify (title doc1)) k) (doc_id doc1) \<noteq> 0))) \<and>
     (isModified doc1 Title \<and> isModified doc2 Title \<and> title doc2 = title doc1 \<and>
      doc_id doc2 \<noteq> doc_id doc1 \<and>
      save Date_parse now1 db doc1 = (Inr d1, db1) \<and>
      save Date_parse now2 db1 doc2 = (Inr d2, db2) \<longrightarrow>
        slug d1 \<noteq> slug d2 \<and>
        (slugify (title doc1) \<notin> slug ` set db \<and>
         suffixed (slugify (title doc1)) 1 \<notin> slug ` set db \<longrightarrow>
           slug d1 = slugify (title doc1) \<and> slug d2 = suffixed (slugify (title doc1)) 1))"
  using first_free_candidate [of Date_parse now1 db doc1 d]
    two_saves_distinct [of Date_parse now1 db doc1 d1 db1 now2 doc2 d2 db2]
    two_saves_base_then_1 [of Date_parse now1 db doc1 d1 db1 now2 doc2 d2 db2]
  by blast

lemma save_without_slug: "save Date_parse now db (doc\<lparr>slug := []\<rparr>) = (Inl ValidationError, db)"
  by (simp add: save_def validate_def required_def)

text \<open>The definitions that evaluate validation on the example documents.\<close>

lemmas validate_eval = validate_def required_def nonEmptyString_def trim_def is_space_def

text \<open>
  Claim C1. The claim says that two Events saved with the same title get the slugs
  \<open>base\<close> and \<open>base-1\<close>. The hook would give them these slugs, but it is a
  \<open>pre("save")\<close> hook and \<open>slug\<close> is a required path: validation runs first and refuses
  a new Event whose slug the caller has not set, whatever its title, so the hook never
  runs, nothing is stored and no slug is adopted. The slugs of the claim come out only
  when the caller supplies some slug of its own, which the hook then replaces.
\<close>

theorem new_event_without_slug_is_not_saved:
  "save Date_parse now db (doc\<lparr>slug := []\<rparr>) = (Inl ValidationError, db) \<and>
   save [''2025-03-01'' \<mapsto> 1740787200000] 1700000000000 []
     (new_event ''65f1a0b2c3d4e5f607182931'' ''Hello World'' [])
   = (Inl ValidationError, []) \<and>
   save [''2025-03-01'' \<mapsto> 1740787200000] 1700000000000 []
     (new_event ''65f1a0b2c3d4e5f607182931'' ''Hello World'' ''tmp'')
   = (Inr (example_event ''65f1a0b2c3d4e5f607182931'' ''Hello World'' ''hello-world''),
      [example_event ''65f1a0b2c3d4e5f607182931'' ''Hello World'' ''hello-world'']) \<and>
   save [''2025-03-01'' \<mapsto> 1740787200000] 1700000000500
     [example_event ''65f1a0b2c3d4e5f607182931'' ''Hello World'' ''hello-world'']
     (new_event ''65f1a0b2c3d4e5f607182932'' ''Hello World'' ''tmp'')
   = (Inr (example_event ''65f1a0b2c3d4e5f607182932'' ''Hello World'' ''hello-world-1''),
      [example_event ''65f1a0b2c3d4e5f607182931'' ''Hello World'' ''hello-world'',
       example_event ''65f1a0b2c3d4e5f607182932'' ''Hello World'' ''hello-world-1''])"
proof -
  let ?P = "[''2025-03-01'' \<mapsto> 1740787200000 :: int]"
  let ?d1 = "example_event ''65f1a0b2c3d4e5f607182931'' ''Hello World'' ''hello-world''"
  let ?d2 = "example_event ''65f1a0b2c3d4e5f607182932'' ''Hello World'' ''hello-world-1''"
  have b: "slugify ''Hello World'' = ''hello-world''"
    by (simp add: slug_eval)
  have t: "normalize_time ''18:30'' = Inr ''18:30''"
    by (simp add: time_eval)
  have i: "toISOString 1740787200000 = ''2025-03-01T00:00:00.000Z''"
    by (simp add: toISOString_def iso_year_def YearFromTime_def TimeFromYear_def DayFromYear_def
        Day_def msPerDay_def MonthFromTime_def DateFromTime_def DayWithinYear_def InLeapYear_def
        DaysInYear_def HourFromTime_def MinFromTime_def SecFromTime_def msFromTime_def
        padStart_def toString_nat.simps digit_char_def char_of_eq_iff replicate_numeral_Cons)
  have n: "normalize_date ?P ''2025-03-01'' = Inr ''2025-03-01''"
    by (simp add: normalize_date_def i)
  have v0: "\<not> validate (new_event ''65f1a0b2c3d4e5f607182931'' ''Hello World'' [])"
    by (simp add: validate_def required_def new_event_def example_event_def)
  have v1: "validate (new_event ''65f1a0b2c3d4e5f607182931'' ''Hello World'' ''tmp'')"
    "validate (new_event ''65f1a0b2c3d4e5f607182932'' ''Hello World'' ''tmp'')"
    by (simp_all add: validate_eval new_event_def example_event_def)
  have s0: "save ?P 1700000000000 [] (new_event ''65f1a0b2c3d4e5f607182931'' ''Hello World'' [])
      = (Inl ValidationError, [])"
    using v0 by (simp add: save_def)
  have s1: "save ?P 1700000000000 [] (new_event ''65f1a0b2c3d4e5f607182931'' ''Hello World'' ''tmp'')
      = (Inr ?d1, [?d1])"
    using v1(1)
    by (simp add: save_def pre_save_def slug_step_def date_step_def time_step_def isModified_def
        new_event_def example_event_def b t n unique_slug_loop.simps countDocuments_def store_def)
  have s2: "save ?P 1700000000500 [?d1] (new_event ''65f1a0b2c3d4e5f607182932'' ''Hello World'' ''tmp'')
      = (Inr ?d2, [?d1, ?d2])"
    using v1(2)
    by (simp add: save_def pre_save_def slug_step_def date_step_def time_step_def isModified_def
        new_event_def example_event_def b t n unique_slug_loop.simps countDocuments_def store_def
        suffixed_def toString_nat.simps digit_char_def char_of_eq_iff)
  from save_without_slug [of Date_parse now db doc] s0 s1 s2 show ?thesis by blast
qed

subsection \<open>The shape of an adopted slug\<close>

lemma is_digit_slug_char: "is_digit c \<Longrightarrow> is_slug_char c"
  by (simp add: is_slug_char_def)

lemma is_digit_not_hyphen: "is_digit c \<Longrightarrow> c \<noteq> CHR ''-''"
  by (auto simp: is_digit_def)

lemma is_slug_char_not_upper: "is_slug_char c \<Longrightarrow> c \<notin> set ''ABCDEFGHIJKLMNOPQRSTUVWXYZ''"
  by (auto simp: is_slug_char_def is_lower_def is_digit_def)

lemma toString_int_chars: "c \<in> set (toString_int i) \<Longrightarrow> is_slug_char c"
  by (auto simp: toString_int_def is_slug_char_def dest: toString_nat_digits split: if_splits)

lemma toString_int_nonempty: "toString_int i \<noteq> []"
  by (simp add: toString_int_def toString_nat_nonempty)

lemma suffixed_chars:
  "c \<in> set (suffixed base k) \<Longrightarrow> (\<forall>c \<in> set base. is_slug_char c) \<Longrightarrow> is_slug_char c"
  by (auto simp: suffixed_def is_slug_char_def dest: toString_nat_digits)

lemma suffixed_nonempty: "suffixed base k \<noteq> []"
  by (simp add: suffixed_def)

lemma unique_slug_loop_cases:
  "unique_slug_loop db self base i cand = cand \<or>
   (\<exists>k. unique_slug_loop db self base i cand = suffixed base k)"
  using unique_slug_loop_result [of i db self base cand]
  by (auto simp: loop_candidate_def split: if_splits)

lemma no_hyphen_no_consecutive: "\<forall>c \<in> set s. c \<noteq> CHR ''-'' \<Longrightarrow> \<not> consecutive_hyphens s"
  by (induction s rule: consecutive_hyphens.induct) auto

lemma consecutive_hyphens_append:
  "consecutive_hyphens (xs @ ys) \<longleftrightarrow>
     consecutive_hyphens xs \<or> consecutive_hyphens ys \<or>
     (xs \<noteq> [] \<and> ys \<noteq> [] \<and> last xs = CHR ''-'' \<and> hd ys = CHR ''-'')"
proof (induction xs)
  case Nil
  show ?case by simp
next
  case (Cons a xs)
  show ?case
  proof (cases xs)
    case Nil
    then show ?thesis by (auto simp: consecutive_hyphens_Cons)
  next
    case (Cons b bs)
    with Cons.IH show ?thesis
      unfolding append_Cons consecutive_hyphens_Cons [of a] by auto
  qed
qed

lemma suffixed_shape:
  assumes "base \<noteq> []" "hd base \<noteq> CHR ''-''" "last base \<noteq> CHR ''-''" "\<not> consecutive_hyphens base"
  shows "hd (suffixed base k) \<noteq> CHR ''-''" "last (suffixed base k) \<noteq> CHR ''-''"
    "\<not> consecutive_hyphens (suffixed base k)"
proof -
  let ?n = "toString_nat k"
  have d: "\<forall>c \<in> set ?n. c \<noteq> CHR ''-''"
    using toString_nat_digits is_digit_not_hyphen by blast
  have ne: "?n \<noteq> []" by (rule toString_nat_nonempty)
  from assms(1,2) show "hd (suffixed base k) \<noteq> CHR ''-''"
    by (simp add: suffixed_def)
  from ne d show "last (suffixed base k) \<noteq> CHR ''-''"
    by (simp add: suffixed_def)
  have "\<not> consecutive_hyphens ?n"
    using d by (rule no_hyphen_no_consecutive)
  moreover from ne d have "hd ?n \<noteq> CHR ''-''" by simp
  ultimately have "\<not> consecutive_hyphens (''-'' @ ?n)"
    by (simp add: consecutive_hyphens_Cons)
  with assms(3,4) show "\<not> consecutive_hyphens (suffixed base k)"
    unfolding suffixed_def by (subst consecutive_hyphens_append) simp
qed

lemma adopted_slug_chars:
  assumes "isModified doc Title" "pre_save Date_parse now db doc = Inr d" "c \<in> set (slug d)"
  shows "is_slug_char c"
proof -
  let ?b = "slugify (title doc)"
  let ?cand = "if ?b = [] then toString_int now else ?b"
  from pre_save_frame(2) [OF assms(2)] slug_step_modified [OF assms(1)]
  have s: "slug d = unique_slug_loop db (doc_id doc) ?b 0 ?cand" by simp
  have b: "\<forall>c \<in> set ?b. is_slug_char c" using slugify_chars by blast
  from unique_slug_loop_cases [of db "doc_id doc" ?b 0 ?cand] s
  have "slug d = ?cand \<or> (\<exists>k. slug d = suffixed ?b k)" by simp
  then show ?thesis
  proof
    assume "slug d = ?cand"
    with assms(3) b toString_int_chars show ?thesis by (auto split: if_splits)
  next
    assume "\<exists>k. slug d = suffixed ?b k"
    then obtain k where "slug d = suffixed ?b k" ..
    with assms(3) have "c \<in> set (suffixed ?b k)" by simp
    then show ?thesis using b by (rule suffixed_chars)
  qed
qed

lemma adopted_slug_shape:
  assumes "isModified doc Title" "pre_save Date_parse now db doc = Inr d"
    and "slugify (title doc) \<noteq> []" "hd (slugify (title doc)) \<noteq> CHR ''-''"
      "last (slugify (title doc)) \<noteq> CHR ''-''"
  shows "hd (slug d) \<noteq> CHR ''-'' \<and> last (slug d) \<noteq> CHR ''-'' \<and> \<not> consecutive_hyphens (slug d)"
proof -
  let ?b = "slugify (title doc)"
  from pre_save_frame(2) [OF assms(2)] slug_step_modified [OF assms(1)] assms(3)
  have s: "slug d = unique_slug_loop db (doc_id doc) ?b 0 ?b" by simp
  from unique_slug_loop_cases [of db "doc_id doc" ?b 0 ?b] s
  have "slug d = ?b \<or> (\<exists>k. slug d = suffixed ?b k)" by simp
  then show ?thesis
  proof
    assume "slug d = ?b"
    with assms(4,5) slugify_no_consecutive_hyphens [of "title doc"] show ?thesis by simp
  next
    assume "\<exists>k. slug d = suffixed ?b k"
    then obtain k where "slug d = suffixed ?b k" ..
    with suffixed_shape [OF assms(3,4,5) slugify_no_consecutive_hyphens, of k]
    show ?thesis by simp
  qed
qed

lemma empty_base_slug:
  assumes "isModified doc Title" "pre_save Date_parse now db doc = Inr d" "slugify (title doc) = []"
  shows "slug d \<noteq> []"
    and "countDocuments db (toString_int now) (doc_id doc) = 0 \<longrightarrow> slug d = toString_int now"
proof -
  from pre_save_frame(2) [OF assms(2)] slug_step_modified [OF assms(1)] assms(3)
  have s: "slug d = unique_slug_loop db (doc_id doc) [] 0 (toString_int now)" by simp
  from unique_slug_loop_cases [of db "doc_id doc" "[]" 0 "toString_int now"] s
  show "slug d \<noteq> []"
    using toString_int_nonempty suffixed_nonempty by auto
  show "countDocuments db (toString_int now) (doc_id doc) = 0 \<longrightarrow> slug d = toString_int now"
    unfolding s by (subst unique_slug_loop.simps) simp
qed

text \<open>
  Claim C2 says that the adopted slug never has a leading or trailing hyphen. A title
  that ends in a removed character after a space is a counterexample: \<open>trim\<close> runs
  before the characters are removed, so the space left at the end becomes a hyphen.
\<close>

theorem trailing_hyphen_counterexample:
  "pre_save (\<lambda>s. None) 1700000000000 []
     ((example_event ''65f1a0b2c3d4e5f607182931'' ''Hello World !'' [])\<lparr>modifiedPaths := {Title}\<rparr>)
   = Inr ((example_event ''65f1a0b2c3d4e5f607182931'' ''Hello World !'' ''hello-world-'')
            \<lparr>modifiedPaths := {Title}\<rparr>) \<and>
   last ''hello-world-'' = CHR ''-''"
proof -
  have b: "slugify ''Hello World !'' = ''hello-world-''"
    by (simp add: slug_eval)
  show ?thesis
    by (simp add: pre_save_def slug_step_def date_step_def time_step_def
        isModified_def example_event_def b unique_slug_loop.simps countDocuments_def)
qed

text \<open>
  Claim C2, amended. When the hook generates the slug, the slug consists of lowercase
  letters, digits and hyphens only (so it has no uppercase letter), and the normalized
  base has no two hyphens in a row; when moreover the base is not empty and neither
  starts nor ends with a hyphen, the slug has no leading hyphen, no trailing hyphen and
  no two hyphens in a row.
\<close>

theorem adopted_slug_charset:
  "isModified doc Title \<and> pre_save Date_parse now db doc = Inr d \<longrightarrow>
     (\<forall>c \<in> set (slug d). is_slug_char c \<and> c \<notin> set ''ABCDEFGHIJKLMNOPQRSTUVWXYZ'') \<and>
     \<not> consecutive_hyphens (slugify (title doc)) \<and>
     (slugify (title doc) \<noteq> [] \<and> hd (slugify (title doc)) \<noteq> CHR ''-'' \<and>
      last (slugify (title doc)) \<noteq> CHR ''-'' \<longrightarrow>
        hd (slug d) \<noteq> CHR ''-'' \<and> last (slug d) \<noteq> CHR ''-'' \<and> \<not> consecutive_hyphens (slug d))"
  using adopted_slug_chars [of doc Date_parse now db d] is_slug_char_not_upper
    adopted_slug_shape [of doc Date_parse now db d]
    slugify_no_consecutive_hyphens [of "title doc"]
  by blast

theorem adopted_slug_charset_witness:
  "pre_save (\<lambda>s. None) 1700000000500
     [example_event ''65f1a0b2c3d4e5f607182931'' ''Hello World'' ''hello-world'']
     ((example_event ''65f1a0b2c3d4e5f607182932'' ''Hello World'' [])\<lparr>modifiedPaths := {Title}\<rparr>)
   = Inr ((example_event ''65f1a0b2c3d4e5f607182932'' ''Hello World'' ''hello-world-1'')
            \<lparr>modifiedPaths := {Title}\<rparr>) \<and>
   last ''hello-world-1'' \<noteq> CHR ''-'' \<and> \<not> consecutive_hyphens ''hello-world-1''"
proof -
  let ?d1 = "example_event ''65f1a0b2c3d4e5f607182931'' ''Hello World'' ''hello-world''"
  let ?doc = "(example_event ''65f1a0b2c3d4e5f607182932'' ''Hello World'' [])\<lparr>modifiedPaths := {Title}\<rparr>"
  let ?d = "(example_event ''65f1a0b2c3d4e5f607182932'' ''Hello World'' ''hello-world-1'')
            \<lparr>modifiedPaths := {Title}\<rparr>"
  have b: "slugify ''Hello World'' = ''hello-world''"
    by (simp add: slug_eval)
  have p: "pre_save (\<lambda>s. None) 1700000000500 [?d1] ?doc = Inr ?d"
    by (simp add: pre_save_def slug_step_def date_step_def time_step_def
        isModified_def example_event_def b unique_slug_loop.simps countDocuments_def
        suffixed_def toString_nat.simps digit_char_def char_of_eq_iff)
  have h: "isModified ?doc Title" "slugify (title ?doc) \<noteq> []"
    "hd (slugify (title ?doc)) \<noteq> CHR ''-''" "last (slugify (title ?doc)) \<noteq> CHR ''-''"
    by (simp_all add: example_event_def b isModified_def)
  from adopted_slug_charset [of ?doc "\<lambda>s. None" 1700000000500 "[?d1]" ?d] h p
  have "last (slug ?d) \<noteq> CHR ''-'' \<and> \<not> consecutive_hyphens (slug ?d)" by blast
  with p show ?thesis by (simp add: example_event_def)
qed

text \<open>
  Claim C9 says that a title made only of characters outside \<open>[a-z0-9\-\s]\<close> has an
  empty base and gets the timestamp. Uppercase letters are outside that class, but
  \<open>slugify\<close> lowers them before it removes characters: the title \<open>ABC\<close> has the base
  \<open>abc\<close>, which is adopted.
\<close>

theorem uppercase_title_counterexample:
  "filter keeps ''ABC'' = [] \<and>
   pre_save (\<lambda>s. None) 1700000000000 []
     ((example_event ''65f1a0b2c3d4e5f607182931'' ''ABC'' [])\<lparr>modifiedPaths := {Title}\<rparr>)
   = Inr ((example_event ''65f1a0b2c3d4e5f607182931'' ''ABC'' ''abc'')
            \<lparr>modifiedPaths := {Title}\<rparr>) \<and>
   toString_int 1700000000000 = ''1700000000000''"
proof -
  have b: "slugify ''ABC'' = ''abc''"
    by (simp add: slug_eval)
  have n: "toString_int 1700000000000 = ''1700000000000''"
    by (simp add: toString_int_def toString_nat.simps digit_char_def char_of_eq_iff)
  have k: "filter keeps ''ABC'' = []"
    by (simp add: keeps_def is_lower_def is_digit_def is_space_def)
  have p: "pre_save (\<lambda>s. None) 1700000000000 []
     ((example_event ''65f1a0b2c3d4e5f607182931'' ''ABC'' [])\<lparr>modifiedPaths := {Title}\<rparr>)
   = Inr ((example_event ''65f1a0b2c3d4e5f607182931'' ''ABC'' ''abc'')
            \<lparr>modifiedPaths := {Title}\<rparr>)"
    by (simp add: pre_save_def slug_step_def date_step_def time_step_def
        isModified_def example_event_def b unique_slug_loop.simps countDocuments_def)
  from k p n show ?thesis by simp
qed

text \<open>
  Claim C9, amended. The normalized base is empty exactly when every character of the
  trimmed and lowercased title is outside \<open>[a-z0-9\-\s]\<close>. For such a title the adopted
  slug is not empty, and it is the decimal rendering of the timestamp when no other
  record has that slug.
\<close>

theorem empty_base_gets_placeholder:
  "(slugify v = [] \<longleftrightarrow> (\<forall>c \<in> set (toLowerCase (trim v)). \<not> keeps c)) \<and>
   (isModified doc Title \<and> slugify (title doc) = [] \<and> pre_save Date_parse now db doc = Inr d \<longrightarrow>
      slug d \<noteq> [] \<and>
      (countDocuments db (toString_int now) (doc_id doc) = 0 \<longrightarrow> slug d = toString_int now))"
  using slugify_Nil_iff [of v] empty_base_slug [of doc Date_parse now db d]
  by blast

theorem empty_base_gets_placeholder_witness:
  "pre_save (\<lambda>s. None) 1700000000000 []
     ((example_event ''65f1a0b2c3d4e5f607182931'' ''!!!'' [])\<lparr>modifiedPaths := {Title}\<rparr>)
   = Inr ((example_event ''65f1a0b2c3d4e5f607182931'' ''!!!'' ''1700000000000'')
            \<lparr>modifiedPaths := {Title}\<rparr>) \<and>
   toString_int 1700000000000 = ''1700000000000'' \<and>
   slugify ''!!!'' = []"
proof -
  let ?doc = "(example_event ''65f1a0b2c3d4e5f607182931'' ''!!!'' [])\<lparr>modifiedPaths := {Title}\<rparr>"
  let ?d = "(example_event ''65f1a0b2c3d4e5f607182931'' ''!!!'' ''1700000000000'')
            \<lparr>modifiedPaths := {Title}\<rparr>"
  have b: "slugify ''!!!'' = []"
    by (simp add: slug_eval)
  have n: "toString_int 1700000000000 = ''1700000000000''"
    by (simp add: toString_int_def toString_nat.simps digit_char_def char_of_eq_iff)
  have p: "pre_save (\<lambda>s. None) 1700000000000 [] ?doc = Inr ?d"
    by (simp add: pre_save_def slug_step_def date_step_def time_step_def
        isModified_def example_event_def b n unique_slug_loop.simps countDocuments_def)
  have h: "isModified ?doc Title" "slugify (title ?doc) = []"
    "countDocuments [] (toString_int 1700000000000) (doc_id ?doc) = 0"
    by (simp_all add: example_event_def b isModified_def countDocuments_def)
  from empty_base_gets_placeholder [of "''!!!''" ?doc "\<lambda>s. None" 1700000000000 "[]" ?d] h p
  have "slug ?d = toString_int 1700000000000" by blast
  with p n b show ?thesis by simp
qed

section \<open>Properties of the time normalization\<close>

subsection \<open>The strings the pattern matches\<close>

text \<open>
  The strings the time pattern matches, written out part by part: the hour is one or two
  digits; the minutes, when present, are \<open>:\<close> or \<open>.\<close> and two digits; the meridiem, when
  present, is any white space and then AM or PM in either case. The second argument of
  \<open>minutes_part\<close> and \<open>meridiem_part\<close> is what the group captures.
\<close>

definition is_hours_part :: "string \<Rightarrow> bool" where
  "is_hours_part hs = ((length hs = 1 \<or> length hs = 2) \<and> (\<forall>c \<in> set hs. is_digit c))"

definition minutes_part :: "string \<Rightarrow> string option \<Rightarrow> bool" where
  "minutes_part mp m2 =
     ((mp = [] \<and> m2 = None) \<or>
      (\<exists>sep a b. mp = [sep, a, b] \<and> (sep = CHR '':'' \<or> sep = CHR ''.'') \<and>
         is_digit a \<and> is_digit b \<and> m2 = Some [a, b]))"

definition meridiem_part :: "string \<Rightarrow> string option \<Rightarrow> bool" where
  "meridiem_part sp m3 =
     ((sp = [] \<and> m3 = None) \<or>
      (\<exists>ws mer. sp = ws @ mer \<and> (\<forall>c \<in> set ws. is_space c) \<and> is_meridiem mer \<and> m3 = Some mer))"

definition time_shape :: "string \<Rightarrow> string \<Rightarrow> string option \<Rightarrow> string option \<Rightarrow> bool" where
  "time_shape t m1 m2 m3 =
     (\<exists>mp sp. t = m1 @ mp @ sp \<and> is_hours_part m1 \<and> minutes_part mp m2 \<and> meridiem_part sp m3)"

lemma is_space_not_digit: "is_space c \<Longrightarrow> \<not> is_digit c \<and> c \<noteq> CHR '':'' \<and> c \<noteq> CHR ''.''"
  by (auto simp: is_space_def is_digit_def)

lemma is_meridiem_hd:
  "is_meridiem mer \<Longrightarrow>
     mer \<noteq> [] \<and> \<not> is_space (hd mer) \<and> \<not> is_digit (hd mer) \<and> hd mer \<noteq> CHR '':'' \<and> hd mer \<noteq> CHR ''.''"
  by (auto simp: is_meridiem_def is_space_def is_digit_def)

lemma not_meridiem_Nil: "\<not> is_meridiem []"
  by (simp add: is_meridiem_def)

lemma sep_not_digit: "\<not> is_digit (CHR '':'')" "\<not> is_digit (CHR ''.'')"
  by (simp_all add: is_digit_def)

lemma meridiem_part_hd:
  "meridiem_part sp m3 \<Longrightarrow> sp = [] \<or> (\<not> is_digit (hd sp) \<and> hd sp \<noteq> CHR '':'' \<and> hd sp \<noteq> CHR ''.'')"
proof -
  assume "meridiem_part sp m3"
  then consider "sp = []" | ws mer where "sp = ws @ mer" "\<forall>c \<in> set ws. is_space c" "is_meridiem mer"
    unfolding meridiem_part_def by blast
  then show ?thesis
  proof cases
    case 1
    then show ?thesis by simp
  next
    case 2
    show ?thesis
    proof (cases ws)
      case Nil
      with 2 is_meridiem_hd [of mer] show ?thesis by simp
    next
      case (Cons w ws')
      with 2 have "hd sp = w" "is_space w" by simp_all
      with is_space_not_digit [of w] show ?thesis by simp
    qed
  qed
qed

lemma match_meridiem_complete: "meridiem_part sp m3 \<Longrightarrow> match_meridiem sp = Some m3"
proof -
  assume "meridiem_part sp m3"
  then consider "sp = []" "m3 = None"
    | ws mer where "sp = ws @ mer" "\<forall>c \<in> set ws. is_space c" "is_meridiem mer" "m3 = Some mer"
    unfolding meridiem_part_def by blast
  then show ?thesis
  proof cases
    case 1
    then show ?thesis by (simp add: match_meridiem_def not_meridiem_Nil)
  next
    case 2
    from 2(3) is_meridiem_hd [of mer] have "mer \<noteq> []" "\<not> is_space (hd mer)" by simp_all
    then have "dropWhile is_space mer = mer" by (cases mer) simp_all
    with 2(2) have "dropWhile is_space (ws @ mer) = mer"
      by (simp add: dropWhile_append2)
    with 2 show ?thesis by (simp add: match_meridiem_def)
  qed
qed

lemma match_meridiem_sound: "match_meridiem r = Some m3 \<Longrightarrow> meridiem_part r m3"
proof -
  assume a: "match_meridiem r = Some m3"
  show ?thesis
  proof (cases "is_meridiem (dropWhile is_space r)")
    case True
    with a have m: "m3 = Some (dropWhile is_space r)" by (simp add: match_meridiem_def)
    have "r = takeWhile is_space r @ dropWhile is_space r" by simp
    moreover have "\<forall>c \<in> set (takeWhile is_space r). is_space c"
      by (auto dest: set_takeWhileD)
    ultimately show ?thesis
      unfolding meridiem_part_def using True m by blast
  next
    case False
    with a have "r = [] \<and> m3 = None"
      by (auto simp: match_meridiem_def split: if_splits)
    then show ?thesis by (simp add: meridiem_part_def)
  qed
qed

lemma match_minutes_complete:
  assumes "minutes_part mp m2" "meridiem_part sp m3"
  shows "match_minutes (mp @ sp) = (m2, sp)"
proof -
  from assms(1) consider "mp = []" "m2 = None"
    | sep a b where "mp = [sep, a, b]" "sep = CHR '':'' \<or> sep = CHR ''.''" "is_digit a" "is_digit b"
        "m2 = Some [a, b]"
    unfolding minutes_part_def by blast
  then show ?thesis
  proof cases
    case 1
    from meridiem_part_hd [OF assms(2)]
    have "match_minutes sp = (None, sp)"
      by (cases sp rule: match_minutes.cases) auto
    with 1 show ?thesis by simp
  next
    case 2
    then show ?thesis by auto
  qed
qed

lemma match_minutes_sound:
  assumes m: "match_minutes r1 = (m2, r2)"
  shows "\<exists>mp. r1 = mp @ r2 \<and> minutes_part mp m2"
proof (cases "\<exists>c a b r. r1 = c # a # b # r \<and> (c = CHR '':'' \<or> c = CHR ''.'') \<and>
    is_digit a \<and> is_digit b")
  case True
  then obtain c a b r where r: "r1 = c # a # b # r" "c = CHR '':'' \<or> c = CHR ''.''"
    "is_digit a" "is_digit b" by blast
  with m have "m2 = Some [a, b]" "r2 = r" by auto
  with r have "r1 = [c, a, b] @ r2 \<and> minutes_part [c, a, b] m2"
    by (simp add: minutes_part_def)
  then show ?thesis by blast
next
  case False
  then have "match_minutes r1 = (None, r1)"
    by (cases r1 rule: match_minutes.cases) auto
  with m have "r1 = [] @ r2 \<and> minutes_part [] m2"
    by (simp add: minutes_part_def)
  then show ?thesis by blast
qed

lemma match_hours_complete:
  assumes "is_hours_part m1" "r = [] \<or> \<not> is_digit (hd r)"
  shows "match_hours (m1 @ r) = Some (m1, r)"
proof -
  from assms(1) consider a where "m1 = [a]" "is_digit a"
    | a b where "m1 = [a, b]" "is_digit a" "is_digit b"
    unfolding is_hours_part_def
    by (cases m1; cases "tl m1"; cases "tl (tl m1)") auto
  then show ?thesis
  proof cases
    case 1
    with assms(2) show ?thesis by (cases r) auto
  next
    case 2
    then show ?thesis by simp
  qed
qed

lemma match_hours_sound:
  "match_hours t = Some (m1, r1) \<Longrightarrow> t = m1 @ r1 \<and> is_hours_part m1"
  by (cases t rule: match_hours.cases) (auto simp: is_hours_part_def split: if_splits)

lemma time_match_iff: "time_match t = Some (m1, m2, m3) \<longleftrightarrow> time_shape t m1 m2 m3"
proof
  assume "time_match t = Some (m1, m2, m3)"
  then obtain r1 r2 where h: "match_hours t = Some (m1, r1)"
    and m: "match_minutes r1 = (m2, r2)" and p: "match_meridiem r2 = Some m3"
    by (auto simp: time_match_def split: option.splits prod.splits)
  from match_minutes_sound [OF m] obtain mp where "r1 = mp @ r2" "minutes_part mp m2" by blast
  with match_hours_sound [OF h] match_meridiem_sound [OF p]
  show "time_shape t m1 m2 m3"
    unfolding time_shape_def by blast
next
  assume "time_shape t m1 m2 m3"
  then obtain mp sp where t: "t = m1 @ mp @ sp" and h: "is_hours_part m1"
    and m: "minutes_part mp m2" and p: "meridiem_part sp m3"
    unfolding time_shape_def by blast
  have "mp @ sp = [] \<or> \<not> is_digit (hd (mp @ sp))"
  proof (cases mp)
    case Nil
    with meridiem_part_hd [OF p] show ?thesis by auto
  next
    case (Cons c cs)
    with m have "c = CHR '':'' \<or> c = CHR ''.''" by (auto simp: minutes_part_def)
    with Cons sep_not_digit show ?thesis by auto
  qed
  from match_hours_complete [OF h this] match_minutes_complete [OF m p] match_meridiem_complete [OF p]
  show "time_match t = Some (m1, m2, m3)"
    by (simp add: time_match_def t)
qed

subsection \<open>What the normalization returns\<close>

text \<open>The minutes of a match, and the zero-padded rendering \<open>HH:MM\<close> of a clock time.\<close>

definition minutes_of :: "string option \<Rightarrow> nat" where
  "minutes_of m2 = (case m2 of None \<Rightarrow> 0 | Some s \<Rightarrow> Number s)"

definition clock :: "nat \<Rightarrow> nat \<Rightarrow> string" where
  "clock h m =
     [digit_char (h div 10), digit_char (h mod 10), CHR '':'',
      digit_char (m div 10), digit_char (m mod 10)]"

lemma digit_char_0: "digit_char 0 = CHR ''0''"
  by (simp add: digit_char_def char_of_eq_iff)

lemma padStart_2: "n < 100 \<Longrightarrow> padStart 2 (toString_nat n) = [digit_char (n div 10), digit_char (n mod 10)]"
proof (cases "n < 10")
  case True
  then show ?thesis
    by (simp add: toString_nat.simps [of n] padStart_def digit_char_0)
next
  case False
  assume "n < 100"
  with False have "n div 10 < 10" by simp
  with False show ?thesis
    by (simp add: toString_nat.simps [of n] toString_nat.simps [of "n div 10"] padStart_def)
qed

lemma normalize_time_matched:
  "time_match (trim v) = Some (m1, m2, m3) \<Longrightarrow>
   normalize_time v =
     (if apply_meridiem m3 (Number m1) \<le> 23 \<and> minutes_of m2 \<le> 59
      then Inr (clock (apply_meridiem m3 (Number m1)) (minutes_of m2))
      else Inl InvalidTime)"
  by (auto simp: normalize_time_def minutes_of_def clock_def padStart_2 Let_def)

lemma normalize_time_unmatched: "time_match (trim v) = None \<Longrightarrow> normalize_time v = Inl InvalidTime"
  by (simp add: normalize_time_def)

lemma normalize_time_Inr:
  "normalize_time v = Inr s \<Longrightarrow> \<exists>h m. h \<le> 23 \<and> m \<le> 59 \<and> s = clock h m"
proof (cases "time_match (trim v)")
  case None
  assume "normalize_time v = Inr s"
  with normalize_time_unmatched [OF None] show ?thesis by simp
next
  case (Some a)
  assume n: "normalize_time v = Inr s"
  obtain m1 m2 m3 where "a = (m1, m2, m3)" by (cases a) auto
  with Some normalize_time_matched [of v m1 m2 m3] n
  show ?thesis by (auto split: if_splits)
qed

lemma digit_char_not_space: "d < 10 \<Longrightarrow> \<not> is_space (digit_char d)"
  using is_digit_digit_char is_space_not_digit by blast

lemma Number_two: "a < 10 \<Longrightarrow> b < 10 \<Longrightarrow> Number [digit_char a, digit_char b] = 10 * a + b"
  by (simp add: Number_def digit_val_digit_char)

lemma normalize_time_clock:
  assumes "h \<le> 23" "m \<le> 59"
  shows "normalize_time (clock h m) = Inr (clock h m)"
proof -
  have d: "h div 10 < 10" "h mod 10 < 10" "m div 10 < 10" "m mod 10 < 10"
    using assms by auto
  have t: "trim (clock h m) = clock h m"
    by (simp add: trim_def clock_def digit_char_not_space d)
  have "time_shape (clock h m) [digit_char (h div 10), digit_char (h mod 10)]
      (Some [digit_char (m div 10), digit_char (m mod 10)]) None"
    unfolding time_shape_def
  proof (intro exI conjI)
    show "clock h m = [digit_char (h div 10), digit_char (h mod 10)]
        @ [CHR '':'', digit_char (m div 10), digit_char (m mod 10)] @ []"
      by (simp add: clock_def)
    show "is_hours_part [digit_char (h div 10), digit_char (h mod 10)]"
      by (simp add: is_hours_part_def is_digit_digit_char d)
    show "minutes_part [CHR '':'', digit_char (m div 10), digit_char (m mod 10)]
        (Some [digit_char (m div 10), digit_char (m mod 10)])"
      by (simp add: minutes_part_def is_digit_digit_char d)
    show "meridiem_part [] None"
      by (simp add: meridiem_part_def)
  qed
  then have "time_match (trim (clock h m)) = Some ([digit_char (h div 10), digit_char (h mod 10)],
      Some [digit_char (m div 10), digit_char (m mod 10)], None)"
    by (simp add: t time_match_iff)
  from normalize_time_matched [OF this] assms d show ?thesis
    by (simp add: apply_meridiem_def minutes_of_def Number_two)
qed

text \<open>
  The shapes of a time as the specification lists them: \<open>H\<close>, \<open>HH\<close>, \<open>H:MM\<close>, \<open>HH:MM\<close> or
  \<open>H.MM\<close>, optionally followed by AM or PM in either case (after white space or none, as
  in its example \<open>9:30 AM\<close>).
\<close>

fun claimed_core :: "string \<Rightarrow> bool" where
  "claimed_core [h] = is_digit h"
| "claimed_core [h1, h2] = (is_digit h1 \<and> is_digit h2)"
| "claimed_core [h, s, a, b] =
     (is_digit h \<and> (s = CHR '':'' \<or> s = CHR ''.'') \<and> is_digit a \<and> is_digit b)"
| "claimed_core [h1, h2, s, a, b] =
     (is_digit h1 \<and> is_digit h2 \<and> s = CHR '':'' \<and> is_digit a \<and> is_digit b)"
| "claimed_core t = False"

definition claimed_time_shape :: "string \<Rightarrow> bool" where
  "claimed_time_shape t =
     (claimed_core t \<or>
      (is_meridiem (drop (length t - 2) t) \<and>
       claimed_core (rev (dropWhile is_space (rev (take (length t - 2) t))))))"

lemma claimed_time_shape_examples:
  "claimed_time_shape ''9:30 AM''" "claimed_time_shape ''21:05''" "claimed_time_shape ''12:00 AM''"
  "claimed_time_shape ''9.30''" "claimed_time_shape ''7pm''"
  by (simp_all add: claimed_time_shape_def is_meridiem_def is_digit_def is_space_def)

text \<open>
  Claim C3 says that every input outside the listed shapes makes the save fail. The
  pattern of the hook also takes a two-digit hour with a dot: \<open>21.05\<close> is none of the
  listed shapes and is stored as \<open>21:05\<close>.
\<close>

theorem two_digit_hour_with_dot_counterexample:
  "\<not> claimed_time_shape ''21.05'' \<and>
   normalize_time ''21.05'' = Inr ''21:05'' \<and>
   pre_save (\<lambda>s. None) 1700000000000 []
     ((example_event ''65f1a0b2c3d4e5f607182931'' ''Launch'' ''launch'')
        \<lparr>time := ''21.05'', modifiedPaths := {Time}\<rparr>)
   = Inr ((example_event ''65f1a0b2c3d4e5f607182931'' ''Launch'' ''launch'')
        \<lparr>time := ''21:05'', modifiedPaths := {Time}\<rparr>)"
proof -
  have c: "\<not> claimed_time_shape ''21.05''"
    by (simp add: claimed_time_shape_def is_meridiem_def is_digit_def is_space_def)
  have t: "normalize_time ''21.05'' = Inr ''21:05''"
    by (simp add: time_eval)
  have p: "pre_save (\<lambda>s. None) 1700000000000 []
     ((example_event ''65f1a0b2c3d4e5f607182931'' ''Launch'' ''launch'')
        \<lparr>time := ''21.05'', modifiedPaths := {Time}\<rparr>)
   = Inr ((example_event ''65f1a0b2c3d4e5f607182931'' ''Launch'' ''launch'')
        \<lparr>time := ''21:05'', modifiedPaths := {Time}\<rparr>)"
    by (simp add: pre_save_def slug_step_def date_step_def time_step_def isModified_def
        example_event_def t)
  from c t p show ?thesis by blast
qed

text \<open>
  Claim C3, amended. Let \<open>t\<close> be the time with the white space around it removed. When
  \<open>t\<close> is an hour of one or two digits, then optionally \<open>:\<close> or \<open>.\<close> and two digits of
  minutes, then optionally AM or PM in either case after any white space, the save stores
  the zero-padded \<open>HH:MM\<close> of the hour after the meridiem is applied, provided that hour
  is at most 23 and the minutes are at most 59, and fails with the time error otherwise.
  When \<open>t\<close> is of no such shape, the save fails with the time error.
\<close>

theorem time_normalization:
  "(time_shape (trim v) m1 m2 m3 \<longrightarrow>
      normalize_time v =
        (if apply_meridiem m3 (Number m1) \<le> 23 \<and> minutes_of m2 \<le> 59
         then Inr (clock (apply_meridiem m3 (Number m1)) (minutes_of m2))
         else Inl InvalidTime)) \<and>
   ((\<forall>h mm mer. \<not> time_shape (trim v) h mm mer) \<longrightarrow> normalize_time v = Inl InvalidTime)"
proof (intro conjI impI)
  assume "time_shape (trim v) m1 m2 m3"
  then have "time_match (trim v) = Some (m1, m2, m3)" by (simp add: time_match_iff)
  then show "normalize_time v =
        (if apply_meridiem m3 (Number m1) \<le> 23 \<and> minutes_of m2 \<le> 59
         then Inr (clock (apply_meridiem m3 (Number m1)) (minutes_of m2))
         else Inl InvalidTime)"
    by (rule normalize_time_matched)
next
  assume n: "\<forall>h mm mer. \<not> time_shape (trim v) h mm mer"
  have "time_match (trim v) = None"
  proof (cases "time_match (trim v)")
    case None
    then show ?thesis .
  next
    case (Some a)
    obtain h mm mer where "a = (h, mm, mer)" by (cases a) auto
    with Some n show ?thesis by (simp add: time_match_iff)
  qed
  then show "normalize_time v = Inl InvalidTime" by (rule normalize_time_unmatched)
qed

text \<open>The definitions that evaluate the time pattern on a given string.\<close>

lemmas match_eval = time_match_def match_meridiem_def is_meridiem_def trim_def is_space_def
  is_digit_def

theorem time_normalization_witness:
  "normalize_time ''9:30 AM'' = Inr ''09:30'' \<and>
   normalize_time ''21:05'' = Inr ''21:05'' \<and>
   normalize_time ''12:00 AM'' = Inr ''00:00'' \<and>
   normalize_time ''25:00'' = Inl InvalidTime \<and>
   normalize_time ''half past nine'' = Inl InvalidTime"
proof -
  have s1: "time_shape (trim ''9:30 AM'') ''9'' (Some ''30'') (Some ''AM'')"
    unfolding time_match_iff [symmetric] by (simp add: match_eval)
  have s2: "time_shape (trim ''21:05'') ''21'' (Some ''05'') None"
    unfolding time_match_iff [symmetric] by (simp add: match_eval)
  have s3: "time_shape (trim ''12:00 AM'') ''12'' (Some ''00'') (Some ''AM'')"
    unfolding time_match_iff [symmetric] by (simp add: match_eval)
  have s4: "time_shape (trim ''25:00'') ''25'' (Some ''00'') None"
    unfolding time_match_iff [symmetric] by (simp add: match_eval)
  have s5: "\<forall>h mm mer. \<not> time_shape (trim ''half past nine'') h mm mer"
    unfolding time_match_iff [symmetric] by (simp add: match_eval)
  have e: "apply_meridiem (Some ''AM'') (Number ''9'') = 9" "minutes_of (Some ''30'') = 30"
    "apply_meridiem None (Number ''21'') = 21" "minutes_of (Some ''05'') = 5"
    "apply_meridiem (Some ''AM'') (Number ''12'') = 0" "minutes_of (Some ''00'') = 0"
    "apply_meridiem None (Number ''25'') = 25"
    by (simp_all add: apply_meridiem_def minutes_of_def Number_def digit_val_def
        toUpperCase_def toUpperCase_char_def char_of_eq_iff)
  have c: "clock 9 30 = ''09:30''" "clock 21 5 = ''21:05''" "clock 0 0 = ''00:00''"
    by (simp_all add: clock_def digit_char_def char_of_eq_iff)
  from time_normalization [of "''9:30 AM''" "''9''" "Some ''30''" "Some ''AM''"] s1
    time_normalization [of "''21:05''" "''21''" "Some ''05''" None] s2
    time_normalization [of "''12:00 AM''" "''12''" "Some ''00''" "Some ''AM''"] s3
    time_normalization [of "''25:00''" "''25''" "Some ''00''" None] s4
    time_normalization [of "''half past nine''"] s5
  show ?thesis by (simp add: e c)
qed

text \<open>
  Claim C10. Time normalization is idempotent: the normalization accepts every string
  it returns and returns it unchanged.
\<close>

theorem time_normalization_idempotent:
  "normalize_time v = Inr s \<longrightarrow> normalize_time s = Inr s"
  using normalize_time_Inr [of v s] normalize_time_clock by blast

theorem time_normalization_idempotent_witness:
  "normalize_time ''9:30 pm'' = Inr ''21:30'' \<and> normalize_time ''21:30'' = Inr ''21:30''"
proof -
  have a: "normalize_time ''9:30 pm'' = Inr ''21:30''"
    by (simp add: time_eval)
  with time_normalization_idempotent [of "''9:30 pm''" "''21:30''"] show ?thesis by blast
qed

section \<open>Properties of the date normalization\<close>

subsection \<open>Years, months and days of a time value\<close>

lemma div_step:
  assumes n: "(0::int) < n"
  shows "(a + 1) div n = a div n + (if (a + 1) mod n = 0 then 1 else 0)"
proof -
  define q r where "q = a div n" and "r = a mod n"
  have a: "a = n * q + r" by (simp add: q_def r_def)
  have r: "0 \<le> r" "r < n" using n by (simp_all add: r_def)
  show ?thesis
  proof (cases "r + 1 < n")
    case True
    have e: "a + 1 = n * q + (r + 1)" using a by simp
    from r True have "(a + 1) div n = q" "(a + 1) mod n = r + 1"
      by (auto intro: int_div_pos_eq [OF e] int_mod_pos_eq [OF e])
    with r show ?thesis by (simp add: q_def)
  next
    case False
    with r have "r + 1 = n" by simp
    with a have e: "a + 1 = n * (q + 1) + 0" by (simp add: algebra_simps)
    from n have "(a + 1) div n = q + 1" "(a + 1) mod n = 0"
      by (auto intro: int_div_pos_eq [OF e] int_mod_pos_eq [OF e])
    then show ?thesis by (simp add: q_def)
  qed
qed

lemma mod_100_4: "(y::int) mod 100 = 0 \<Longrightarrow> y mod 4 = 0"
  by presburger
lemma mod_400_100: "(y::int) mod 400 = 0 \<Longrightarrow> y mod 100 = 0"
  by presburger


lemma DayFromYear_Suc: "DayFromYear (y + 1) = DayFromYear y + DaysInYear y"
proof -
  have m4: "(y - 1969 + 1) mod 4 = 0 \<longleftrightarrow> y mod 4 = 0" by presburger
  have m100: "(y - 1901 + 1) mod 100 = 0 \<longleftrightarrow> y mod 100 = 0" by presburger
  have m400: "(y - 1601 + 1) mod 400 = 0 \<longleftrightarrow> y mod 400 = 0" by presburger
  have a: "(y - 1969 + 1) div 4 = (y - 1969) div 4 + (if y mod 4 = 0 then 1 else 0)"
    using div_step [of 4 "y - 1969"] m4 by simp
  have b: "(y - 1901 + 1) div 100 = (y - 1901) div 100 + (if y mod 100 = 0 then 1 else 0)"
    using div_step [of 100 "y - 1901"] m100 by simp
  have c: "(y - 1601 + 1) div 400 = (y - 1601) div 400 + (if y mod 400 = 0 then 1 else 0)"
    using div_step [of 400 "y - 1601"] m400 by simp
  have e: "y + 1 - 1969 = y - 1969 + 1" "y + 1 - 1901 = y - 1901 + 1" "y + 1 - 1601 = y - 1601 + 1"
    "y + 1 - 1970 = y - 1970 + 1"
    by simp_all
  show ?thesis
    unfolding DayFromYear_def DaysInYear_def e a b c
    using mod_100_4 [of y] mod_400_100 [of y] by (auto simp: algebra_simps)
qed

lemma DaysInYear_bounds: "365 \<le> DaysInYear y \<and> DaysInYear y \<le> 366"
  by (simp add: DaysInYear_def)

lemma DayFromYear_1970: "DayFromYear 1970 = 0"
  by (simp add: DayFromYear_def)

lemma DayFromYear_add:
  "DayFromYear y + 365 * int k \<le> DayFromYear (y + int k) \<and>
   DayFromYear (y + int k) \<le> DayFromYear y + 366 * int k"
proof (induction k)
  case 0
  show ?case by simp
next
  case (Suc k)
  have "y + int (Suc k) = (y + int k) + 1" by simp
  then have "DayFromYear (y + int (Suc k)) = DayFromYear (y + int k) + DaysInYear (y + int k)"
    by (simp only: DayFromYear_Suc)
  with Suc DaysInYear_bounds [of "y + int k"] show ?case by simp
qed

lemma DayFromYear_mono: "y \<le> y' \<Longrightarrow> DayFromYear y \<le> DayFromYear y'"
  using DayFromYear_add [of y "nat (y' - y)"] by simp

lemma DayFromYear_strict: "y < y' \<Longrightarrow> DayFromYear y < DayFromYear y'"
  using DayFromYear_add [of y "nat (y' - y)"] by simp

lemma DayFromYear_from_1970:
  "1970 \<le> y \<Longrightarrow> 365 * (y - 1970) \<le> DayFromYear y \<and> DayFromYear y \<le> 366 * (y - 1970)"
  using DayFromYear_add [of 1970 "nat (y - 1970)"] by (simp add: DayFromYear_1970)

lemma DayFromYear_to_1970:
  "y \<le> 1970 \<Longrightarrow> 366 * (y - 1970) \<le> DayFromYear y \<and> DayFromYear y \<le> 365 * (y - 1970)"
  using DayFromYear_add [of y "nat (1970 - y)"] by (simp add: DayFromYear_1970)

lemma mult_le_iff_le_div:
  assumes "(0::int) < a"
  shows "a * y \<le> t \<longleftrightarrow> y \<le> t div a"
proof
  assume "a * y \<le> t"
  then have "(a * y) div a \<le> t div a" using assms by (rule zdiv_mono1)
  with assms show "y \<le> t div a" by simp
next
  assume "y \<le> t div a"
  with assms have "a * y \<le> a * (t div a)" by simp
  also have "\<dots> = t - t mod a" by (simp add: minus_mod_eq_mult_div)
  also have "\<dots> \<le> t" using assms by simp
  finally show "a * y \<le> t" .
qed

lemma TimeFromYear_le_iff: "TimeFromYear y \<le> t \<longleftrightarrow> DayFromYear y \<le> Day t"
  unfolding TimeFromYear_def Day_def
  by (rule mult_le_iff_le_div) (simp add: msPerDay_def)

lemma sorted_le_last: "sorted xs \<Longrightarrow> x \<in> set xs \<Longrightarrow> x \<le> last xs"
  by (induction xs) auto

lemma last_filter_upto:
  assumes lo: "P lo" and hi: "\<not> P hi" and le: "lo \<le> hi"
    and down: "\<And>y y'. P y' \<Longrightarrow> y \<le> y' \<Longrightarrow> P y"
  shows "P (last (filter P [lo..hi])) \<and> \<not> P (last (filter P [lo..hi]) + 1)"
proof -
  let ?S = "filter P [lo..hi]"
  let ?Y = "last ?S"
  from lo le have "lo \<in> set ?S" by simp
  then have ne: "?S \<noteq> []" by (metis empty_iff empty_set)
  then have "?Y \<in> set ?S" by (rule last_in_set)
  then have Y: "P ?Y" "lo \<le> ?Y" "?Y \<le> hi" by auto
  have s: "sorted ?S" by (rule sorted_wrt_filter) (rule sorted_upto)
  have "\<not> P (?Y + 1)"
  proof
    assume p: "P (?Y + 1)"
    have "?Y + 1 \<le> hi"
    proof (rule ccontr)
      assume "\<not> ?Y + 1 \<le> hi"
      with Y(3) have "hi \<le> ?Y + 1" by simp
      from down [OF p this] hi show False by simp
    qed
    with Y(2) p have "?Y + 1 \<in> set ?S" by simp
    with s have "?Y + 1 \<le> ?Y" by (rule sorted_le_last)
    then show False by simp
  qed
  with Y(1) show ?thesis by simp
qed

lemma YearFromTime_bounds:
  "DayFromYear (1970 + min (Day t div 365) (Day t div 366) - 1) \<le> Day t \<and>
   Day t < DayFromYear (1970 + max (Day t div 365) (Day t div 366) + 1)"
proof (cases "0 \<le> Day t")
  case True
  define d where "d = Day t"
  from True have d: "0 \<le> d" by (simp add: d_def)
  then have o: "d div 366 \<le> d div 365" by (intro zdiv_mono2) simp_all
  from d have n: "0 \<le> d div 366" "0 \<le> d div 365" by simp_all
  have a: "366 * (d div 366) \<le> d" "d < 365 * (d div 365) + 365"
    by (simp_all add: minus_mod_eq_mult_div [symmetric])
  have "DayFromYear (1970 + d div 366 - 1) \<le> d"
  proof (cases "d div 366 = 0")
    case True
    with d show ?thesis by (simp add: DayFromYear_def)
  next
    case False
    with n have "1970 \<le> 1970 + d div 366 - 1" by simp
    from DayFromYear_from_1970 [OF this] a show ?thesis by simp
  qed
  moreover have "d < DayFromYear (1970 + d div 365 + 1)"
  proof -
    from n have "1970 \<le> 1970 + d div 365 + 1" by simp
    from DayFromYear_from_1970 [OF this] a show ?thesis by simp
  qed
  ultimately show ?thesis
    using o by (simp add: d_def [symmetric] min_def max_def)
next
  case False
  define d where "d = Day t"
  from False have d: "d < 0" by (simp add: d_def)
  then have o: "d div 365 \<le> d div 366" by (intro zdiv_mono2_neg) simp_all
  from d have n: "d div 366 < 0" "d div 365 < 0"
    by (simp_all add: div_neg_pos_less0)
  have a: "365 * (d div 365) \<le> d" "d < 366 * (d div 366) + 366"
    by (simp_all add: minus_mod_eq_mult_div [symmetric])
  have "DayFromYear (1970 + d div 365 - 1) \<le> d"
  proof -
    from n have "1970 + d div 365 - 1 \<le> 1970" by simp
    from DayFromYear_to_1970 [OF this] a show ?thesis by simp
  qed
  moreover have "d < DayFromYear (1970 + d div 366 + 1)"
  proof -
    from n have "1970 + d div 366 + 1 \<le> 1970" by simp
    from DayFromYear_to_1970 [OF this] a show ?thesis by simp
  qed
  ultimately show ?thesis
    using o by (simp add: d_def [symmetric] min_def max_def)
qed

text \<open>
  The search of \<open>YearFromTime\<close> finds what ECMAScript defines: the largest year \<open>y\<close> with
  \<open>TimeFromYear(y) \<le> t\<close>.
\<close>

lemma YearFromTime_days:
  "DayFromYear (YearFromTime t) \<le> Day t \<and> Day t < DayFromYear (YearFromTime t + 1)"
proof -
  let ?lo = "1970 + min (Day t div 365) (Day t div 366) - 1"
  let ?hi = "1970 + max (Day t div 365) (Day t div 366) + 1"
  let ?P = "\<lambda>y. TimeFromYear y \<le> t"
  have "?P (last (filter ?P [?lo..?hi])) \<and> \<not> ?P (last (filter ?P [?lo..?hi]) + 1)"
  proof (rule last_filter_upto)
    from YearFromTime_bounds [of t] show "?P ?lo" "\<not> ?P ?hi"
      by (simp_all add: TimeFromYear_le_iff)
    show "?lo \<le> ?hi" by simp
    show "?P y" if "?P y'" "y \<le> y'" for y y'
      using that DayFromYear_mono [of y y'] by (simp add: TimeFromYear_le_iff)
  qed
  then have "?P (YearFromTime t) \<and> \<not> ?P (YearFromTime t + 1)"
    by (simp add: YearFromTime_def Let_def)
  then show ?thesis
    by (simp add: TimeFromYear_le_iff)
qed

lemma YearFromTime_spec:
  "TimeFromYear (YearFromTime t) \<le> t \<and> t < TimeFromYear (YearFromTime t + 1)"
  using YearFromTime_days [of t] TimeFromYear_le_iff [of "YearFromTime t" t]
    TimeFromYear_le_iff [of "YearFromTime t + 1" t]
  by simp

lemma DayWithinYear_bounds:
  "0 \<le> DayWithinYear t \<and> DayWithinYear t < DaysInYear (YearFromTime t)"
  using YearFromTime_days [of t]
  by (simp add: DayWithinYear_def DayFromYear_Suc)

lemma MonthFromTime_bounds: "0 \<le> MonthFromTime t \<and> MonthFromTime t \<le> 11"
  by (simp add: MonthFromTime_def Let_def)

lemma DateFromTime_bounds: "1 \<le> DateFromTime t \<and> DateFromTime t \<le> 31"
proof -
  from DayWithinYear_bounds [of t]
  have "0 \<le> DayWithinYear t" "DayWithinYear t < 365 + InLeapYear t"
    using DaysInYear_bounds [of "YearFromTime t"]
    by (auto simp: InLeapYear_def DaysInYear_def)
  moreover have "InLeapYear t = 0 \<or> InLeapYear t = 1" by (simp add: InLeapYear_def)
  ultimately show ?thesis
    unfolding DateFromTime_def MonthFromTime_def Let_def
    by (auto split: if_splits)
qed

subsection \<open>Dates within the years 0 to 9999\<close>

lemma toString_nat_1: "n < 10 \<Longrightarrow> toString_nat n = [digit_char n]"
  by (simp add: toString_nat.simps [of n])

lemma toString_nat_2:
  "10 \<le> n \<Longrightarrow> n < 100 \<Longrightarrow> toString_nat n = [digit_char (n div 10), digit_char (n mod 10)]"
  by (simp add: toString_nat.simps [of n] toString_nat_1)

lemma toString_nat_3:
  "100 \<le> n \<Longrightarrow> n < 1000 \<Longrightarrow>
   toString_nat n = [digit_char (n div 100), digit_char (n div 10 mod 10), digit_char (n mod 10)]"
  by (simp add: toString_nat.simps [of n] toString_nat_2 div_mult2_eq [symmetric])

lemma toString_nat_4:
  "1000 \<le> n \<Longrightarrow> n < 10000 \<Longrightarrow>
   toString_nat n = [digit_char (n div 1000), digit_char (n div 100 mod 10),
     digit_char (n div 10 mod 10), digit_char (n mod 10)]"
  by (simp add: toString_nat.simps [of n] toString_nat_3 div_mult2_eq [symmetric])

lemma padStart_4:
  assumes "n < 10000"
  shows "padStart 4 (toString_nat n) = [digit_char (n div 1000), digit_char (n div 100 mod 10),
     digit_char (n div 10 mod 10), digit_char (n mod 10)]"
proof -
  consider "n < 10" | "10 \<le> n" "n < 100" | "100 \<le> n" "n < 1000" | "1000 \<le> n"
    by linarith
  then show ?thesis
  proof cases
    case 1
    then show ?thesis
      by (simp add: toString_nat_1 padStart_def digit_char_0 replicate_numeral_Cons)
  next
    case 2
    then show ?thesis
      by (simp add: toString_nat_2 padStart_def digit_char_0 replicate_numeral_Cons)
  next
    case 3
    then show ?thesis
      by (simp add: toString_nat_3 padStart_def digit_char_0)
  next
    case 4
    with assms show ?thesis
      by (simp add: toString_nat_4 padStart_def)
  qed
qed

text \<open>
  A date of the form \<open>YYYY-MM-DD\<close>, and the rendering of a year, a month and a day in
  this form.
\<close>

fun is_iso_date :: "string \<Rightarrow> bool" where
  "is_iso_date [y1, y2, y3, y4, h1, m1, m2, h2, d1, d2] =
     (is_digit y1 \<and> is_digit y2 \<and> is_digit y3 \<and> is_digit y4 \<and> h1 = CHR ''-'' \<and>
      is_digit m1 \<and> is_digit m2 \<and> h2 = CHR ''-'' \<and> is_digit d1 \<and> is_digit d2)"
| "is_iso_date s = False"

definition iso_date :: "nat \<Rightarrow> nat \<Rightarrow> nat \<Rightarrow> string" where
  "iso_date y m d =
     [digit_char (y div 1000), digit_char (y div 100 mod 10), digit_char (y div 10 mod 10),
      digit_char (y mod 10), CHR ''-'', digit_char (m div 10), digit_char (m mod 10), CHR ''-'',
      digit_char (d div 10), digit_char (d mod 10)]"

lemma is_iso_date_iso_date: "y < 10000 \<Longrightarrow> m < 100 \<Longrightarrow> d < 100 \<Longrightarrow> is_iso_date (iso_date y m d)"
  by (simp add: iso_date_def is_digit_digit_char)

lemma take_10_toISOString:
  assumes "0 \<le> YearFromTime t" "YearFromTime t \<le> 9999"
  shows "take 10 (toISOString t) =
     iso_date (nat (YearFromTime t)) (nat (MonthFromTime t + 1)) (nat (DateFromTime t))"
proof -
  from assms have y: "nat (YearFromTime t) < 10000" by simp
  from MonthFromTime_bounds [of t] have m: "nat (MonthFromTime t + 1) < 100" by arith
  from DateFromTime_bounds [of t] have d: "nat (DateFromTime t) < 100" by arith
  show ?thesis
    unfolding toISOString_def iso_year_def
    using assms by (simp add: padStart_4 [OF y] padStart_2 [OF m] padStart_2 [OF d] iso_date_def)
qed

lemma normalize_date_four_digit_year:
  assumes "Date_parse v = Some t" "0 \<le> YearFromTime t" "YearFromTime t \<le> 9999"
  shows "normalize_date Date_parse v =
      Inr (iso_date (nat (YearFromTime t)) (nat (MonthFromTime t + 1)) (nat (DateFromTime t)))"
    and "is_iso_date (iso_date (nat (YearFromTime t)) (nat (MonthFromTime t + 1)) (nat (DateFromTime t)))"
    and "1 \<le> MonthFromTime t + 1 \<and> MonthFromTime t + 1 \<le> 12 \<and> 1 \<le> DateFromTime t \<and> DateFromTime t \<le> 31"
proof -
  show "normalize_date Date_parse v =
      Inr (iso_date (nat (YearFromTime t)) (nat (MonthFromTime t + 1)) (nat (DateFromTime t)))"
    using assms by (simp add: normalize_date_def take_10_toISOString)
  from assms(2,3) MonthFromTime_bounds [of t] DateFromTime_bounds [of t]
  show "is_iso_date (iso_date (nat (YearFromTime t)) (nat (MonthFromTime t + 1)) (nat (DateFromTime t)))"
    by (intro is_iso_date_iso_date) arith+
  from MonthFromTime_bounds [of t] DateFromTime_bounds [of t]
  show "1 \<le> MonthFromTime t + 1 \<and> MonthFromTime t + 1 \<le> 12 \<and> 1 \<le> DateFromTime t \<and> DateFromTime t \<le> 31"
    by simp
qed

subsection \<open>What the normalization stores\<close>

text \<open>The definitions that evaluate \<open>toISOString\<close> on a given time value.\<close>

lemmas date_eval = normalize_date_def toISOString_def iso_year_def YearFromTime_def
  TimeFromYear_def DayFromYear_def Day_def msPerDay_def MonthFromTime_def DateFromTime_def
  DayWithinYear_def InLeapYear_def DaysInYear_def HourFromTime_def MinFromTime_def
  SecFromTime_def msFromTime_def padStart_def toString_nat.simps digit_char_def
  char_of_eq_iff replicate_numeral_Cons

lemma date_step_fails_iff:
  "date_step Date_parse doc = Inl e \<longleftrightarrow>
     isModified doc Date \<and> Date_parse (date doc) = None \<and> e = InvalidDate"
  by (auto simp: date_step_def normalize_date_def split: option.splits)

lemma pre_save_date_fails_iff:
  "pre_save Date_parse now db doc = Inl InvalidDate \<longleftrightarrow>
     isModified doc Date \<and> Date_parse (date doc) = None"
proof -
  have a: "isModified (slug_step now db doc) Date = isModified doc Date"
    "date (slug_step now db doc) = date doc"
    by (simp_all add: slug_step_def isModified_def Let_def)
  have t: "time_step d \<noteq> Inl InvalidDate" for d
    by (auto simp: time_step_def normalize_time_def Let_def split: option.splits sum.splits)
  show ?thesis
  proof (cases "date_step Date_parse (slug_step now db doc)")
    case (Inl e)
    with date_step_fails_iff [of Date_parse "slug_step now db doc" e] a
    show ?thesis by (simp add: pre_save_def)
  next
    case (Inr d)
    with date_step_fails_iff [of Date_parse "slug_step now db doc" InvalidDate] a t [of d]
    show ?thesis by (simp add: pre_save_def)
  qed
qed

text \<open>
  Claim C4. The claim says that a save with a modified date fails exactly when the date
  cannot be parsed, and that otherwise the calendar date is stored as \<open>YYYY-MM-DD\<close>. The
  first part holds. The second fails where \<open>toISOString\<close> writes the year with a sign
  and six digits: \<open>+010000-01-01\<close> is a date of the ECMAScript date-time format, its
  time value is 253402300800000, and \<open>slice(0, 10)\<close> of \<open>+010000-01-01T00:00:00.000Z\<close>
  stores \<open>+010000-01\<close>, which is no calendar date.
\<close>

theorem date_beyond_four_digit_years:
  "(pre_save Date_parse now db doc = Inl InvalidDate \<longleftrightarrow>
      isModified doc Date \<and> Date_parse (date doc) = None) \<and>
   toISOString 253402300800000 = ''+010000-01-01T00:00:00.000Z'' \<and>
   normalize_date [''+010000-01-01'' \<mapsto> 253402300800000] ''+010000-01-01'' = Inr ''+010000-01'' \<and>
   pre_save [''+010000-01-01'' \<mapsto> 253402300800000] 1700000000000 []
     ((example_event ''65f1a0b2c3d4e5f607182931'' ''Launch'' ''launch'')
        \<lparr>date := ''+010000-01-01'', modifiedPaths := {Date}\<rparr>)
   = Inr ((example_event ''65f1a0b2c3d4e5f607182931'' ''Launch'' ''launch'')
        \<lparr>date := ''+010000-01'', modifiedPaths := {Date}\<rparr>)"
proof -
  have i: "toISOString 253402300800000 = ''+010000-01-01T00:00:00.000Z''"
    by (simp add: date_eval)
  have n: "normalize_date [''+010000-01-01'' \<mapsto> 253402300800000] ''+010000-01-01''
      = Inr ''+010000-01''"
    by (simp add: normalize_date_def i)
  have p: "pre_save [''+010000-01-01'' \<mapsto> 253402300800000] 1700000000000 []
     ((example_event ''65f1a0b2c3d4e5f607182931'' ''Launch'' ''launch'')
        \<lparr>date := ''+010000-01-01'', modifiedPaths := {Date}\<rparr>)
   = Inr ((example_event ''65f1a0b2c3d4e5f607182931'' ''Launch'' ''launch'')
        \<lparr>date := ''+010000-01'', modifiedPaths := {Date}\<rparr>)"
    by (simp add: pre_save_def slug_step_def date_step_def time_step_def isModified_def
        example_event_def n)
  from pre_save_date_fails_iff [of Date_parse now db doc] i n p show ?thesis by blast
qed

text \<open>
  The date stored is that of the instant in UTC. A date-time with a time zone offset can
  so be stored under the next or the previous day; a date-time in UTC keeps its day.
\<close>

lemma date_with_offset_example:
  "normalize_date [''2024-01-01T23:30:00-05:00'' \<mapsto> 1704169800000] ''2024-01-01T23:30:00-05:00''
     = Inr ''2024-01-02''"
  by (simp add: date_eval)

lemma date_in_utc_example:
  "normalize_date [''2024-02-29T12:34:56.789Z'' \<mapsto> 1709210096789] ''2024-02-29T12:34:56.789Z''
     = Inr ''2024-02-29''"
  by (simp add: date_eval)

end
